theory Spec2Isabelle
  imports Complex_Main "HOL-Library.Signed_Division"
begin

section \<open>ExaMPM solver driver (ExaMPM\_Solver.hpp)\<close>

text \<open>
  The theory embeds the one source file of the repository: the backend selection
  \<^verbatim>\<open>createSolver\<close>, the timing reduction \<^verbatim>\<open>Solver::timer_stats\<close>, the output
  routine \<^verbatim>\<open>Solver::outputParticles\<close> and the time loop \<^verbatim>\<open>Solver::solve\<close> with its
  shutdown reap of the forked \<^verbatim>\<open>h5fuse\<close> processes.

  Conventions of the embedding.
  \<^item> C++ \<^verbatim>\<open>double\<close> is modelled by \<^typ>\<open>real\<close>: rounding, infinities and NaN are not
    represented.
  \<^item> C++ \<^verbatim>\<open>int\<close> is modelled by \<^typ>\<open>int\<close>; the operator \<^verbatim>\<open>%\<close> is the truncating
    remainder \<open>smod\<close>, and a zero divisor is a fault of its own. Runs are
    taken to stay below \<open>2^31\<close> steps and forks.
  \<^item> One value of type \<open>'pm solver\<close> is one MPI participant: the members of its
    \<^verbatim>\<open>Solver\<close> object, the namespace-scope counter \<^verbatim>\<open>nfork\<close> of its process, and the
    chronological list of the effects it has performed.
  \<^item> Everything the participant obtains from outside the file (the problem manager,
    the time-step controller, the integrator, the environment variables, MPI, the
    Cabana writer, \<^verbatim>\<open>waitpid\<close>) is a field of the record \<open>'pm world\<close>.
\<close>

subsection \<open>Backend selection\<close>

text \<open>The Kokkos build flags tested by the preprocessor in \<^verbatim>\<open>createSolver\<close>.\<close>

record kokkos_build =
  KOKKOS_ENABLE_SERIAL :: bool
  KOKKOS_ENABLE_OPENMP :: bool
  KOKKOS_ENABLE_CUDA :: bool
  KOKKOS_ENABLE_HIP :: bool

text \<open>The four instantiations \<^verbatim>\<open>Solver<MemorySpace, ExecutionSpace>\<close> that can be made.\<close>

datatype solver_kind = HostSpace_Serial | HostSpace_OpenMP | CudaSpace_Cuda | HIPSpace_HIP

datatype exn = runtime_error string

definition createSolver :: "kokkos_build \<Rightarrow> string \<Rightarrow> exn + solver_kind" where
  "createSolver b device =
     (if device = ''serial'' \<or> device = ''Serial'' \<or> device = ''SERIAL'' then
        (if KOKKOS_ENABLE_SERIAL b then Inr HostSpace_Serial
         else Inl (runtime_error ''Serial Backend Not Enabled''))
      else if device = ''openmp'' \<or> device = ''OpenMP'' \<or> device = ''OPENMP'' then
        (if KOKKOS_ENABLE_OPENMP b then Inr HostSpace_OpenMP
         else Inl (runtime_error ''OpenMP Backend Not Enabled''))
      else if device = ''cuda'' \<or> device = ''Cuda'' \<or> device = ''CUDA'' then
        (if KOKKOS_ENABLE_CUDA b then Inr CudaSpace_Cuda
         else Inl (runtime_error ''CUDA Backend Not Enabled''))
      else if device = ''hip'' \<or> device = ''Hip'' \<or> device = ''HIP'' then
        (if KOKKOS_ENABLE_HIP b then Inr HIPSpace_HIP
         else Inl (runtime_error ''HIP Backend Not Enabled''))
      else Inl (runtime_error ''invalid backend''))"

text \<open>
  The vocabulary of the specification: the accepted spellings of a backend name and
  whether the build enables it.
\<close>

fun spellings :: "solver_kind \<Rightarrow> string set" where
  "spellings HostSpace_Serial = {''serial'', ''Serial'', ''SERIAL''}"
| "spellings HostSpace_OpenMP = {''openmp'', ''OpenMP'', ''OPENMP''}"
| "spellings CudaSpace_Cuda = {''cuda'', ''Cuda'', ''CUDA''}"
| "spellings HIPSpace_HIP = {''hip'', ''Hip'', ''HIP''}"

fun enabled :: "kokkos_build \<Rightarrow> solver_kind \<Rightarrow> bool" where
  "enabled b HostSpace_Serial = KOKKOS_ENABLE_SERIAL b"
| "enabled b HostSpace_OpenMP = KOKKOS_ENABLE_OPENMP b"
| "enabled b CudaSpace_Cuda = KOKKOS_ENABLE_CUDA b"
| "enabled b HIPSpace_HIP = KOKKOS_ENABLE_HIP b"

subsection \<open>Timer statistics\<close>

record timer_statsinfo =
  min_stat :: real
  max_stat :: real
  mean_stat :: real
  std_stat :: real

text \<open>The first loop over the gathered timers: running maximum, minimum and sum.\<close>

fun stats_scan :: "real list \<Rightarrow> timer_statsinfo \<Rightarrow> timer_statsinfo" where
  "stats_scan [] st = st"
| "stats_scan (x # xs) st =
     (let st1 = (if x > max_stat st then st\<lparr>max_stat := x\<rparr> else st);
          st2 = (if x < min_stat st1 then st1\<lparr>min_stat := x\<rparr> else st1)
      in stats_scan xs (st2\<lparr>mean_stat := mean_stat st2 + x\<rparr>))"

text \<open>The second loop: the sum of the squared deviations from the mean.\<close>

fun stats_dev :: "real list \<Rightarrow> timer_statsinfo \<Rightarrow> timer_statsinfo" where
  "stats_dev [] st = st"
| "stats_dev (x # xs) st =
     stats_dev xs (st\<lparr>std_stat := std_stat st + (x - mean_stat st) * (x - mean_stat st)\<rparr>)"

text \<open>
  \<^verbatim>\<open>timer_stats(timer, comm, destrank, stats)\<close>. The communicator is given by what
  the participant gets from it: its \<open>rank\<close>, and \<open>rtimers\<close>, the array that
  \<^verbatim>\<open>MPI_Gather\<close> fills on \<open>destrank\<close> with one sample per participant in rank order
  (so \<^verbatim>\<open>nprocs\<close> is its length). \<open>stats\<close> is the pointee, \<open>None\<close> while it has
  never been written; a participant other than \<open>destrank\<close> leaves it alone.
\<close>

definition timer_stats ::
  "real \<Rightarrow> nat \<Rightarrow> real list \<Rightarrow> nat \<Rightarrow> timer_statsinfo option \<Rightarrow> timer_statsinfo option" where
  "timer_stats timer rank rtimers destrank stats =
     (if rank = destrank then
        (let nprocs = real (length rtimers);
             st0 = \<lparr>min_stat = timer, max_stat = timer, mean_stat = 0, std_stat = 0\<rparr>;
             st1 = stats_scan rtimers st0;
             st2 = st1\<lparr>mean_stat := mean_stat st1 / nprocs\<rparr>;
             st3 = stats_dev rtimers st2
         in Some (st3\<lparr>std_stat := sqrt (std_stat st3 / nprocs)\<rparr>))
      else stats)"

subsection \<open>The participant and its surroundings\<close>

text \<open>
  How the build chose the output backend: \<^verbatim>\<open>Cabana_ENABLE_HDF5\<close>, else
  \<^verbatim>\<open>Cabana_ENABLE_SILO\<close>, else neither.
\<close>

datatype output_build = HDF5 | SILO | NO_OUTPUT

text \<open>
  A wait status as the reap reads it: \<^verbatim>\<open>WIFEXITED\<close> holds and \<^verbatim>\<open>WEXITSTATUS\<close> is the
  given code, or \<^verbatim>\<open>WIFEXITED\<close> does not hold.
\<close>

datatype wstatus = Exited int | Abnormal

text \<open>
  The effects a participant performs, in the order of the source:
  the progress line of rank 0 (time, final time, the statistics member as it is),
  \<^verbatim>\<open>TimeIntegrator::step\<close> with the \<open>dt\<close> it is given,
  \<^verbatim>\<open>communicateParticles\<close>, an entry into \<^verbatim>\<open>outputParticles\<close> with the current step,
  a call of a writer's \<^verbatim>\<open>writeTimeStep\<close> with step and time, the warning of a build
  without output, the parent side of \<^verbatim>\<open>fork()\<close> whose child runs \<^verbatim>\<open>execvp\<close> on the given
  arguments for the file of the given step (the trailing configuration file name, which
  is derived from the inode of the output file, is left out), and a wait status examined
  by the shutdown reap.
\<close>

datatype event =
    Progress real real "timer_statsinfo option"
  | TimeStep real
  | Communicate
  | OutputParticles int
  | WriteTimeStep int real
  | NoOutputWarning
  | Fork int "string list"
  | Checked wstatus

datatype fault = DivisionByZero | MPI_Abort_WORLD int

record 'pm solver =
  dt :: real
  time :: real
  step :: int
  pm :: 'pm
  rank :: int
  shmrank :: "int option"
  io_stats :: "timer_statsinfo option"
  nfork :: int
  events :: "event list"

text \<open>
  The members \<^verbatim>\<open>_gravity\<close>, \<^verbatim>\<open>_bc\<close>, \<^verbatim>\<open>_halo_min\<close> and \<^verbatim>\<open>_mesh\<close> are constant after
  construction and only handed to the collaborators; they are part of the functions
  \<open>integrate\<close> and \<open>communicateParticles\<close> below. The members \<^verbatim>\<open>shmrank\<close> and
  \<^verbatim>\<open>io_stats\<close> have no initialiser: \<open>None\<close> stands for "never assigned".
\<close>

record 'pm world =
  timeStepControl :: "'pm \<Rightarrow> real \<Rightarrow> real"
  integrate :: "'pm \<Rightarrow> real \<Rightarrow> 'pm"
  communicateParticles :: "'pm \<Rightarrow> 'pm"
  output_build :: output_build
  getenv :: "string \<Rightarrow> string option"
  world_rank :: nat
  hosts :: "nat list"
  written_subfilenames :: "nat \<Rightarrow> int \<Rightarrow> string"
  write_seconds :: "int \<Rightarrow> real"
  gathered_seconds :: "int \<Rightarrow> real list"
  unset_shmrank :: int
  unset_status :: wstatus
  waited :: "wstatus list"

text \<open>
  \<^item> \<open>world_rank\<close> is the participant's rank in \<^verbatim>\<open>MPI_COMM_WORLD\<close>, and \<open>hosts\<close>
    gives, for every rank of \<^verbatim>\<open>MPI_COMM_WORLD\<close> in order, the shared-memory node it
    runs on.
  \<^item> \<open>written_subfilenames r k\<close> is what \<^verbatim>\<open>writeTimeStep\<close> leaves in
    \<^verbatim>\<open>h5_config.subfilenames\<close> on world rank \<open>r\<close> for the write of step \<open>k\<close>.
  \<^item> \<open>write_seconds k\<close> is the participant's \<^verbatim>\<open>t2 - t1\<close> around that write and
    \<open>gathered_seconds k\<close> the array \<^verbatim>\<open>MPI_Gather\<close> delivers for it.
  \<^item> \<open>unset_shmrank\<close> and \<open>unset_status\<close> are the values read from the member
    \<^verbatim>\<open>shmrank\<close> and from the local \<^verbatim>\<open>status\<close> while nothing has been stored there.
  \<^item> \<open>waited\<close> lists the statuses stored by the successive successful calls
    \<^verbatim>\<open>waitpid(-1, &status, 0)\<close>; once it is used up, \<^verbatim>\<open>waitpid\<close> fails and stores
    nothing.
\<close>

definition log :: "event \<Rightarrow> 'pm solver \<Rightarrow> 'pm solver" where
  "log e s = s\<lparr>events := events s @ [e]\<rparr>"

text \<open>
  The constructor in a fresh process: \<^verbatim>\<open>_dt(delta_t), _time(0.0), _step(0)\<close>, the
  rank from \<^verbatim>\<open>MPI_Comm_rank(comm, &_rank)\<close>, and the namespace-scope \<^verbatim>\<open>int nfork;\<close>,
  which has static storage and is therefore zero.
\<close>

definition Solver :: "real \<Rightarrow> int \<Rightarrow> 'pm \<Rightarrow> 'pm solver" where
  "Solver delta_t r p =
     \<lparr>dt = delta_t, time = 0, step = 0, pm = p, rank = r, shmrank = None,
      io_stats = None, nfork = 0, events = []\<rparr>"

subsection \<open>Output and launch of the fusion process\<close>

text \<open>
  The fields of Cabana's \<^verbatim>\<open>HDF5Config\<close> that the routine branches on, all false or
  empty in a fresh object. The alignment fields set from
  \<^verbatim>\<open>H5FD_SUBFILING_STRIPE_SIZE\<close> affect only the writer and are left out.
\<close>

record HDF5Config =
  subfiling :: bool
  h5fuse_info :: bool
  h5fuse_local :: bool
  subfilenames :: string

definition h5_config_getenv :: "(string \<Rightarrow> string option) \<Rightarrow> HDF5Config" where
  "h5_config_getenv env =
     (let c0 = \<lparr>subfiling = False, h5fuse_info = False, h5fuse_local = False,
                subfilenames = []\<rparr>;
          c1 = (if env ''H5FD_SUBFILING'' \<noteq> None then c0\<lparr>subfiling := True\<rparr> else c0)
      in if env ''H5FUSE'' \<noteq> None then
           (let c2 = c1\<lparr>h5fuse_info := True\<rparr>
            in if env ''LOC'' \<noteq> None then c2\<lparr>h5fuse_local := True\<rparr> else c2)
         else c1)"

text \<open>
  \<^verbatim>\<open>MPI_Comm_split_type(MPI_COMM_WORLD, MPI_COMM_TYPE_SHARED, 0, ...)\<close> followed by
  \<^verbatim>\<open>MPI_Comm_rank\<close>: all keys are 0, so the members of a node are ranked by
  their rank in \<^verbatim>\<open>MPI_COMM_WORLD\<close>, and a participant's new rank is the number of
  lower world ranks on its node.
\<close>

definition split_rank :: "nat list \<Rightarrow> nat \<Rightarrow> int" where
  "split_rank hs r = int (length (filter (\<lambda>q. hs ! q = hs ! r) [0..<r]))"

text \<open>\<^verbatim>\<open>pid = fork(); nfork++;\<close> as seen by the parent.\<close>

definition fork_h5fuse :: "string list \<Rightarrow> 'pm solver \<Rightarrow> 'pm solver" where
  "fork_h5fuse args s = (log (Fork (step s) args) s)\<lparr>nfork := nfork s + 1\<rparr>"

definition outputParticles :: "'pm world \<Rightarrow> 'pm solver \<Rightarrow> 'pm solver" where
  "outputParticles w s0 =
     (let s = log (OutputParticles (step s0)) s0 in
      case output_build w of
        HDF5 \<Rightarrow>
          (let h5 = (h5_config_getenv (getenv w))
                      \<lparr>subfilenames := written_subfilenames w (world_rank w) (step s)\<rparr>;
               s1 = log (WriteTimeStep (step s) (time s)) s;
               s2 = s1\<lparr>io_stats := timer_stats (write_seconds w (step s1)) (world_rank w)
                                     (gathered_seconds w (step s1)) 0 (io_stats s1)\<rparr>
           in if getenv w ''H5FUSE'' \<noteq> None then
                (if subfiling h5 then
                   (if \<not> h5fuse_local h5 then
                      (if subfilenames h5 \<noteq> [] then
                         fork_h5fuse [''./h5fuse'', ''-l'', subfilenames h5, ''-f''] s2
                       else s2)
                    else
                      (let s3 = s2\<lparr>shmrank := Some (split_rank (hosts w) (world_rank w))\<rparr>
                       in if shmrank s3 = Some 0 then
                            fork_h5fuse [''./h5fuse'', ''-r'', ''-f''] s3
                          else s3))
                 else s2)
              else s2)
      | SILO \<Rightarrow> log (WriteTimeStep (step s) (time s)) s
      | NO_OUTPUT \<Rightarrow> (if rank s = 0 then log NoOutputWarning s else s))"

subsection \<open>The time loop and the shutdown reap\<close>

text \<open>
  The body of \<^verbatim>\<open>while ( _time < t_final )\<close> from the progress line up to
  \<^verbatim>\<open>_step++\<close>. The remainder of the progress line is evaluated only on rank 0 (the
  \<^verbatim>\<open>&&\<close> short-circuits); its zero divisor is dealt with in \<open>loop_body\<close>.
\<close>

definition advance :: "'pm world \<Rightarrow> real \<Rightarrow> int \<Rightarrow> 'pm solver \<Rightarrow> 'pm solver" where
  "advance w t_final write_freq s =
     (let s1 = (if rank s = 0 \<and> step s smod write_freq = 0
                then log (Progress (time s) t_final (io_stats s)) s else s);
          s2 = s1\<lparr>dt := timeStepControl w (pm s1) (dt s1)\<rparr>;
          s3 = log (TimeStep (dt s2)) (s2\<lparr>pm := integrate w (pm s2) (dt s2)\<rparr>);
          s4 = log Communicate (s3\<lparr>pm := communicateParticles w (pm s3)\<rparr>);
          s5 = s4\<lparr>time := time s4 + dt s4\<rparr>
      in s5\<lparr>step := step s5 + 1\<rparr>)"

text \<open>
  One pass through the body. With \<^verbatim>\<open>write_freq\<close> zero, rank 0 divides by zero in
  the progress line, every other participant in the test that follows \<^verbatim>\<open>_step++\<close>.
\<close>

definition loop_body ::
  "'pm world \<Rightarrow> real \<Rightarrow> int \<Rightarrow> 'pm solver \<Rightarrow> fault \<times> 'pm solver + 'pm solver" where
  "loop_body w t_final write_freq s =
     (if rank s = 0 \<and> write_freq = 0 then Inl (DivisionByZero, s)
      else
        (let s6 = advance w t_final write_freq s
         in if write_freq = 0 then Inl (DivisionByZero, s6)
            else if step s6 smod write_freq = 0 then Inr (outputParticles w s6)
            else Inr s6))"

text \<open>
  The loop, with a bound on the number of passes: \<open>None\<close> means that the bound was
  reached while the condition still held.
\<close>

fun time_loop ::
  "nat \<Rightarrow> 'pm world \<Rightarrow> real \<Rightarrow> int \<Rightarrow> 'pm solver \<Rightarrow> (fault \<times> 'pm solver + 'pm solver) option"
  where
  "time_loop 0 w t_final write_freq s =
     (if time s < t_final then None else Some (Inr s))"
| "time_loop (Suc n) w t_final write_freq s =
     (if time s < t_final then
        (case loop_body w t_final write_freq s of
           Inl e \<Rightarrow> Some (Inl e)
         | Inr s' \<Rightarrow> time_loop n w t_final write_freq s')
      else Some (Inr s))"

text \<open>
  \<^verbatim>\<open>waitpid(-1, &status, 0)\<close> on the local \<^verbatim>\<open>status\<close>: a successful call stores the
  next status, a failing one leaves the variable as it was.
\<close>

fun waitpid :: "wstatus \<Rightarrow> wstatus list \<Rightarrow> wstatus \<times> wstatus list" where
  "waitpid status [] = (status, [])"
| "waitpid status (c # cs) = (c, cs)"

text \<open>
  \<^verbatim>\<open>for ( int i = 0; i < nfork; i++ )\<close>, with the number of passes left, the content of
  \<^verbatim>\<open>status\<close> and the statuses still to come. \<^verbatim>\<open>MPI_Abort( MPI_COMM_WORLD, -1 )\<close> ends
  the run.
\<close>

fun reap_loop ::
  "nat \<Rightarrow> wstatus \<Rightarrow> wstatus list \<Rightarrow> 'pm solver \<Rightarrow> fault \<times> 'pm solver + 'pm solver" where
  "reap_loop 0 status cs s = Inr s"
| "reap_loop (Suc n) status cs s =
     (let (status', cs') = waitpid status cs;
          s' = log (Checked status') s
      in case status' of
           Exited ret \<Rightarrow>
             (if ret \<noteq> 0 then Inl (MPI_Abort_WORLD (- 1), s')
              else reap_loop n status' cs' s')
         | Abnormal \<Rightarrow> Inl (MPI_Abort_WORLD (- 1), s'))"

text \<open>The value the guard \<^verbatim>\<open>shmrank == 0\<close> reads from the member.\<close>

definition read_shmrank :: "'pm world \<Rightarrow> 'pm solver \<Rightarrow> int" where
  "read_shmrank w s = (case shmrank s of Some r \<Rightarrow> r | None \<Rightarrow> unset_shmrank w)"

definition shutdown_reap ::
  "'pm world \<Rightarrow> 'pm solver \<Rightarrow> fault \<times> 'pm solver + 'pm solver" where
  "shutdown_reap w s =
     (if read_shmrank w s = 0
      then reap_loop (nat (nfork s)) (unset_status w) (waited w) s
      else Inr s)"

definition solve ::
  "nat \<Rightarrow> 'pm world \<Rightarrow> real \<Rightarrow> int \<Rightarrow> 'pm solver \<Rightarrow> (fault \<times> 'pm solver + 'pm solver) option"
  where
  "solve fuel w t_final write_freq s =
     (case time_loop fuel w t_final write_freq (outputParticles w s) of
        None \<Rightarrow> None
      | Some (Inl e) \<Rightarrow> Some (Inl e)
      | Some (Inr s') \<Rightarrow> Some (shutdown_reap w s'))"

subsection \<open>Reading the list of effects\<close>

fun outputs :: "event list \<Rightarrow> int list" where
  "outputs [] = []"
| "outputs (OutputParticles k # es) = k # outputs es"
| "outputs (e # es) = outputs es"

fun timesteps :: "event list \<Rightarrow> real list" where
  "timesteps [] = []"
| "timesteps (TimeStep d # es) = d # timesteps es"
| "timesteps (e # es) = timesteps es"

fun forks :: "event list \<Rightarrow> (int \<times> string list) list" where
  "forks [] = []"
| "forks (Fork k args # es) = (k, args) # forks es"
| "forks (e # es) = forks es"

fun checked :: "event list \<Rightarrow> wstatus list" where
  "checked [] = []"
| "checked (Checked c # es) = c # checked es"
| "checked (e # es) = checked es"

fun writes :: "event list \<Rightarrow> (int \<times> real) list" where
  "writes [] = []"
| "writes (WriteTimeStep k t # es) = (k, t) # writes es"
| "writes (e # es) = writes es"

text \<open>The effects performed since the state \<open>s\<close>, read from a later state \<open>s'\<close>.\<close>

definition since :: "'pm solver \<Rightarrow> 'pm solver \<Rightarrow> event list" where
  "since s s' = drop (length (events s)) (events s')"

text \<open>The state in which a run ended, whether it returned or stopped with a fault.\<close>

fun final :: "fault \<times> 'pm solver + 'pm solver \<Rightarrow> 'pm solver" where
  "final (Inl (e, s)) = s"
| "final (Inr s) = s"

text \<open>
  A run left the time loop unless it stopped in the loop with a division by zero.
\<close>

fun loop_exited :: "fault \<times> 'pm solver + 'pm solver \<Rightarrow> bool" where
  "loop_exited (Inl (e, s)) = (e \<noteq> DivisionByZero)"
| "loop_exited (Inr s) = True"

subsection \<open>Fusion modes\<close>

text \<open>
  Fusion is enabled and subfiling active when the HDF5 writer is built in and both
  \<^verbatim>\<open>H5FUSE\<close> and \<^verbatim>\<open>H5FD_SUBFILING\<close> are set; \<^verbatim>\<open>LOC\<close> then selects the
  local-fuse mode, and its absence the global-fuse mode. \<open>launch_args w k\<close> lists the
  fusion processes a participant forks when it outputs step \<open>k\<close>.
\<close>

definition fusing :: "'pm world \<Rightarrow> bool" where
  "fusing w \<longleftrightarrow> output_build w = HDF5 \<and> getenv w ''H5FUSE'' \<noteq> None \<and>
     getenv w ''H5FD_SUBFILING'' \<noteq> None"

definition local_fuse :: "'pm world \<Rightarrow> bool" where
  "local_fuse w \<longleftrightarrow> fusing w \<and> getenv w ''LOC'' \<noteq> None"

definition global_fuse :: "'pm world \<Rightarrow> bool" where
  "global_fuse w \<longleftrightarrow> fusing w \<and> getenv w ''LOC'' = None"

definition launch_args :: "'pm world \<Rightarrow> int \<Rightarrow> (int \<times> string list) list" where
  "launch_args w k =
     (if local_fuse w then
        (if split_rank (hosts w) (world_rank w) = 0
         then [(k, [''./h5fuse'', ''-r'', ''-f''])] else [])
      else if global_fuse w then
        (if written_subfilenames w (world_rank w) k \<noteq> []
         then [(k, [''./h5fuse'', ''-l'', written_subfilenames w (world_rank w) k, ''-f''])]
         else [])
      else [])"

subsection \<open>The whole job at one output step\<close>

text \<open>
  The number of \<^verbatim>\<open>fork()\<close> calls one call of \<^verbatim>\<open>outputParticles\<close> makes, the
  surroundings as world rank \<open>r\<close> sees them, and the launches of a list of ranks when
  every rank \<open>r\<close>, in its state \<open>st r\<close>, calls \<^verbatim>\<open>outputParticles\<close> once.
\<close>

definition launches :: "'pm world \<Rightarrow> 'pm solver \<Rightarrow> nat" where
  "launches w s = length (forks (since s (outputParticles w s)))"

definition participant :: "'pm world \<Rightarrow> nat \<Rightarrow> 'pm world" where
  "participant w r = w\<lparr>world_rank := r\<rparr>"

definition job_launches :: "'pm world \<Rightarrow> (nat \<Rightarrow> 'pm solver) \<Rightarrow> nat list \<Rightarrow> nat" where
  "job_launches w st rs = sum_list (map (\<lambda>r. launches (participant w r) (st r)) rs)"

definition node_members :: "nat list \<Rightarrow> nat \<Rightarrow> nat list" where
  "node_members hs g = filter (\<lambda>r. hs ! r = g) [0..<length hs]"

definition all_ranks :: "'pm world \<Rightarrow> nat list" where
  "all_ranks w = [0..<length (hosts w)]"

subsection \<open>A concrete run\<close>

text \<open>
  The scenario of the specification: final time 1, a controller that always returns
  the configured step 0.3, output every second step. The job has four
  participants on two nodes; the base scenario is built with the Silo writer, the
  variants with HDF5 and the fusion switches set.
\<close>

definition fuse_env :: "bool \<Rightarrow> string \<Rightarrow> string option" where
  "fuse_env loc v =
     (if v = ''H5FUSE'' \<or> v = ''H5FD_SUBFILING'' \<or> (loc \<and> v = ''LOC'') then Some ''1''
      else None)"

definition scenario :: "unit world" where
  "scenario =
     \<lparr>timeStepControl = (\<lambda>p d. 3 / 10), integrate = (\<lambda>p d. p), communicateParticles = (\<lambda>p. p),
      output_build = SILO, getenv = (\<lambda>v. None), world_rank = 0, hosts = [0, 0, 1, 1],
      written_subfilenames = (\<lambda>r k. []), write_seconds = (\<lambda>k. 1),
      gathered_seconds = (\<lambda>k. [1, 1, 1, 1]), unset_shmrank = 0, unset_status = Abnormal,
      waited = []\<rparr>"

text \<open>The state in which rank 0 ends the base scenario.\<close>

definition scenario_end :: "unit solver" where
  "scenario_end =
     \<lparr>dt = 3 / 10, time = 6 / 5, step = 4, pm = (), rank = 0, shmrank = None,
      io_stats = None, nfork = 0,
      events =
        [OutputParticles 0, WriteTimeStep 0 0, Progress 0 1 None,
         TimeStep (3 / 10), Communicate, TimeStep (3 / 10), Communicate,
         OutputParticles 2, WriteTimeStep 2 (3 / 5), Progress (3 / 5) 1 None,
         TimeStep (3 / 10), Communicate, TimeStep (3 / 10), Communicate,
         OutputParticles 4, WriteTimeStep 4 (6 / 5)]\<rparr>"

text \<open>
  The same run in a build with neither writer, and the state in which rank 0 ends it.
\<close>

definition scenario_silent :: "unit world" where
  "scenario_silent = scenario\<lparr>output_build := NO_OUTPUT\<rparr>"

definition scenario_silent_end :: "unit solver" where
  "scenario_silent_end =
     \<lparr>dt = 3 / 10, time = 6 / 5, step = 4, pm = (), rank = 0, shmrank = None,
      io_stats = None, nfork = 0,
      events =
        [OutputParticles 0, NoOutputWarning, Progress 0 1 None,
         TimeStep (3 / 10), Communicate, TimeStep (3 / 10), Communicate,
         OutputParticles 2, NoOutputWarning, Progress (3 / 5) 1 None,
         TimeStep (3 / 10), Communicate, TimeStep (3 / 10), Communicate,
         OutputParticles 4, NoOutputWarning]\<rparr>"

text \<open>
  The local-fuse variant, seen from world rank 2, the lowest rank of the second node:
  HDF5 with \<^verbatim>\<open>H5FUSE\<close>, \<^verbatim>\<open>H5FD_SUBFILING\<close> and \<^verbatim>\<open>LOC\<close> set; the three fusion
  processes it forks all exit with code 0. \<open>scenario_local_exit\<close> is its state when
  the loop is left, \<open>scenario_local_end\<close> its state when \<^verbatim>\<open>solve\<close> returns.
\<close>

definition scenario_local :: "unit world" where
  "scenario_local =
     scenario\<lparr>output_build := HDF5, getenv := fuse_env True, world_rank := 2,
              waited := [Exited 0, Exited 0, Exited 0]\<rparr>"

definition scenario_local_exit :: "unit solver" where
  "scenario_local_exit =
     \<lparr>dt = 3 / 10, time = 6 / 5, step = 4, pm = (), rank = 2, shmrank = Some 0,
      io_stats = None, nfork = 3,
      events =
        [OutputParticles 0, WriteTimeStep 0 0, Fork 0 [''./h5fuse'', ''-r'', ''-f''],
         TimeStep (3 / 10), Communicate, TimeStep (3 / 10), Communicate,
         OutputParticles 2, WriteTimeStep 2 (3 / 5), Fork 2 [''./h5fuse'', ''-r'', ''-f''],
         TimeStep (3 / 10), Communicate, TimeStep (3 / 10), Communicate,
         OutputParticles 4, WriteTimeStep 4 (6 / 5), Fork 4 [''./h5fuse'', ''-r'', ''-f'']]\<rparr>"

definition scenario_local_end :: "unit solver" where
  "scenario_local_end =
     scenario_local_exit
       \<lparr>events := events scenario_local_exit @
          [Checked (Exited 0), Checked (Exited 0), Checked (Exited 0)]\<rparr>"

text \<open>
  The global-fuse variant, seen from world rank 0: \<^verbatim>\<open>LOC\<close> is not set, the write
  reports a list of subfile names on the lowest rank of each node, the member
  \<^verbatim>\<open>shmrank\<close> reads as 7 while unset, and the first fusion process would exit with
  code 1. \<open>scenario_global_end\<close> is the state when the loop is left.
\<close>

definition scenario_global :: "unit world" where
  "scenario_global =
     scenario\<lparr>output_build := HDF5, getenv := fuse_env False,
              written_subfilenames := (\<lambda>r k. if r = 0 \<or> r = 2 then ''subfiles'' else []),
              unset_shmrank := 7, waited := [Exited 1, Exited 0, Exited 0]\<rparr>"

definition scenario_global_end :: "unit solver" where
  "scenario_global_end =
     \<lparr>dt = 3 / 10, time = 6 / 5, step = 4, pm = (), rank = 0, shmrank = None,
      io_stats = Some \<lparr>min_stat = 1, max_stat = 1, mean_stat = 1, std_stat = 0\<rparr>,
      nfork = 3,
      events =
        [OutputParticles 0, WriteTimeStep 0 0,
         Fork 0 [''./h5fuse'', ''-l'', ''subfiles'', ''-f''],
         Progress 0 1 (Some \<lparr>min_stat = 1, max_stat = 1, mean_stat = 1, std_stat = 0\<rparr>),
         TimeStep (3 / 10), Communicate, TimeStep (3 / 10), Communicate,
         OutputParticles 2, WriteTimeStep 2 (3 / 5),
         Fork 2 [''./h5fuse'', ''-l'', ''subfiles'', ''-f''],
         Progress (3 / 5) 1 (Some \<lparr>min_stat = 1, max_stat = 1, mean_stat = 1, std_stat = 0\<rparr>),
         TimeStep (3 / 10), Communicate, TimeStep (3 / 10), Communicate,
         OutputParticles 4, WriteTimeStep 4 (6 / 5),
         Fork 4 [''./h5fuse'', ''-l'', ''subfiles'', ''-f'']]\<rparr>"

text \<open>The new solver of every rank of the job, before \<^verbatim>\<open>solve\<close>.\<close>

definition job_states :: "nat \<Rightarrow> unit solver" where
  "job_states r = Solver (3 / 10) (int r) ()"

section \<open>Properties\<close>

subsection \<open>Backend selection\<close>

lemma createSolver_Inr:
  "createSolver b device = Inr k \<longleftrightarrow> device \<in> spellings k \<and> enabled b k"
  by (cases k) (auto simp: createSolver_def)

lemma createSolver_unknown:
  assumes "\<forall>k. device \<notin> spellings k"
  shows "createSolver b device = Inl (runtime_error ''invalid backend'')"
proof -
  from assms have "device \<notin> spellings HostSpace_Serial" "device \<notin> spellings HostSpace_OpenMP"
    "device \<notin> spellings CudaSpace_Cuda" "device \<notin> spellings HIPSpace_HIP"
    by blast+
  then show "createSolver b device = Inl (runtime_error ''invalid backend'')"
    by (simp add: createSolver_def)
qed

lemma createSolver_disabled:
  assumes "device \<in> spellings k" and "\<not> enabled b k"
  shows "\<exists>msg. msg \<noteq> [] \<and> createSolver b device = Inl (runtime_error msg)"
proof (cases k)
  case HostSpace_Serial
  with assms have "createSolver b device = Inl (runtime_error ''Serial Backend Not Enabled'')"
    by (auto simp: createSolver_def)
  then show ?thesis by simp
next
  case HostSpace_OpenMP
  with assms have "createSolver b device = Inl (runtime_error ''OpenMP Backend Not Enabled'')"
    by (auto simp: createSolver_def)
  then show ?thesis by simp
next
  case CudaSpace_Cuda
  with assms have "createSolver b device = Inl (runtime_error ''CUDA Backend Not Enabled'')"
    by (auto simp: createSolver_def)
  then show ?thesis by simp
next
  case HIPSpace_HIP
  with assms have "createSolver b device = Inl (runtime_error ''HIP Backend Not Enabled'')"
    by (auto simp: createSolver_def)
  then show ?thesis by simp
qed

text \<open>
  Claim C9. A device string that is none of the accepted spellings makes
  \<^verbatim>\<open>createSolver\<close> throw \<^verbatim>\<open>runtime_error("invalid backend")\<close>; a string that spells a
  backend the build does not enable makes it throw a \<^verbatim>\<open>runtime_error\<close> with a
  non-empty message; and a solver of kind \<open>k\<close> is constructed exactly when the string
  spells \<open>k\<close> and \<open>k\<close> is enabled, so no other backend is ever substituted.
\<close>

theorem createSolver_rejects:
  "((\<forall>k. device \<notin> spellings k) \<longrightarrow>
      createSolver b device = Inl (runtime_error ''invalid backend'')) \<and>
   (device \<in> spellings k \<and> \<not> enabled b k \<longrightarrow>
      (\<exists>msg. msg \<noteq> [] \<and> createSolver b device = Inl (runtime_error msg))) \<and>
   (createSolver b device = Inr k \<longleftrightarrow> device \<in> spellings k \<and> enabled b k)"
proof (intro conjI impI)
  assume "\<forall>k. device \<notin> spellings k"
  then show "createSolver b device = Inl (runtime_error ''invalid backend'')"
    by (rule createSolver_unknown)
next
  assume "device \<in> spellings k \<and> \<not> enabled b k"
  then have "device \<in> spellings k" and "\<not> enabled b k"
    by simp_all
  then show "\<exists>msg. msg \<noteq> [] \<and> createSolver b device = Inl (runtime_error msg)"
    by (rule createSolver_disabled)
next
  show "createSolver b device = Inr k \<longleftrightarrow> device \<in> spellings k \<and> enabled b k"
    by (rule createSolver_Inr)
qed

theorem createSolver_rejects_witness:
  "createSolver \<lparr>KOKKOS_ENABLE_SERIAL = True, KOKKOS_ENABLE_OPENMP = False,
                  KOKKOS_ENABLE_CUDA = False, KOKKOS_ENABLE_HIP = False\<rparr> ''gpu''
     = Inl (runtime_error ''invalid backend'') \<and>
   (\<exists>msg. msg \<noteq> [] \<and>
      createSolver \<lparr>KOKKOS_ENABLE_SERIAL = True, KOKKOS_ENABLE_OPENMP = False,
                     KOKKOS_ENABLE_CUDA = False, KOKKOS_ENABLE_HIP = False\<rparr> ''CUDA''
        = Inl (runtime_error msg)) \<and>
   createSolver \<lparr>KOKKOS_ENABLE_SERIAL = True, KOKKOS_ENABLE_OPENMP = False,
                  KOKKOS_ENABLE_CUDA = False, KOKKOS_ENABLE_HIP = False\<rparr> ''Serial''
     = Inr HostSpace_Serial"
proof -
  let ?b = "\<lparr>KOKKOS_ENABLE_SERIAL = True, KOKKOS_ENABLE_OPENMP = False,
             KOKKOS_ENABLE_CUDA = False, KOKKOS_ENABLE_HIP = False\<rparr>"
  have none: "\<forall>k. ''gpu'' \<notin> spellings k"
  proof
    fix k show "''gpu'' \<notin> spellings k" by (cases k) simp_all
  qed
  have off: "''CUDA'' \<in> spellings CudaSpace_Cuda \<and> \<not> enabled ?b CudaSpace_Cuda"
    by simp
  have on: "''Serial'' \<in> spellings HostSpace_Serial \<and> enabled ?b HostSpace_Serial"
    by simp
  note all = createSolver_rejects [where b = ?b]
  have 1: "createSolver ?b ''gpu'' = Inl (runtime_error ''invalid backend'')"
    by (rule all [of "''gpu''" HostSpace_Serial, THEN conjunct1, THEN mp, OF none])
  have 2: "\<exists>msg. msg \<noteq> [] \<and> createSolver ?b ''CUDA'' = Inl (runtime_error msg)"
    by (rule all [of "''CUDA''" CudaSpace_Cuda, THEN conjunct2, THEN conjunct1, THEN mp, OF off])
  have 3: "createSolver ?b ''Serial'' = Inr HostSpace_Serial"
    by (rule all [of "''Serial''" HostSpace_Serial, THEN conjunct2, THEN conjunct2, THEN iffD2, OF on])
  from 1 2 3 show ?thesis by (intro conjI)
qed

subsection \<open>Timer statistics\<close>

lemma stats_scan_fields:
  "min_stat (stats_scan xs st) = fold min xs (min_stat st)"
  "max_stat (stats_scan xs st) = fold max xs (max_stat st)"
  "mean_stat (stats_scan xs st) = mean_stat st + sum_list xs"
  "std_stat (stats_scan xs st) = std_stat st"
  by (induction xs arbitrary: st) (auto simp: Let_def min_def max_def)

lemma stats_dev_fields:
  "min_stat (stats_dev xs st) = min_stat st"
  "max_stat (stats_dev xs st) = max_stat st"
  "mean_stat (stats_dev xs st) = mean_stat st"
  "std_stat (stats_dev xs st) = std_stat st + (\<Sum>x\<leftarrow>xs. (x - mean_stat st)\<^sup>2)"
  by (induction xs arbitrary: st) (auto simp: power2_eq_square)

lemma fold_min_Min: "a \<in> set xs \<Longrightarrow> fold min xs (a::real) = Min (set xs)"
  using Min.set_eq_fold [of a xs] by (simp add: insert_absorb)

lemma fold_max_Max: "a \<in> set xs \<Longrightarrow> fold max xs (a::real) = Max (set xs)"
  using Max.set_eq_fold [of a xs] by (simp add: insert_absorb)

text \<open>
  Claim C8. On the collector (the participant whose rank is \<open>destrank\<close>), where the
  gathered array holds one sample per participant and the collector's own sample at its
  own rank, \<^verbatim>\<open>timer_stats\<close> stores the minimum and the maximum of all samples, their
  arithmetic mean, and the population standard deviation: the square root of the summed
  squared deviations from the mean divided by the number of participants. The samples
  1, 2, 3, 4 give 1, 4, 2.5 and \<open>sqrt 1.25\<close> (the witness).
\<close>

theorem timer_stats_collector:
  assumes "r < length rtimers" and "rtimers ! r = timer"
  shows "timer_stats timer r rtimers r stats =
     Some \<lparr>min_stat = Min (set rtimers), max_stat = Max (set rtimers),
           mean_stat = sum_list rtimers / real (length rtimers),
           std_stat = sqrt ((\<Sum>x\<leftarrow>rtimers. (x - sum_list rtimers / real (length rtimers))\<^sup>2)
                            / real (length rtimers))\<rparr>"
proof -
  from assms have mem: "timer \<in> set rtimers"
    using nth_mem by blast
  show ?thesis
    unfolding timer_stats_def
    by (simp add: Let_def, intro timer_statsinfo.equality)
       (simp_all add: stats_scan_fields stats_dev_fields fold_min_Min [OF mem] fold_max_Max [OF mem])
qed

theorem timer_stats_collector_witness:
  "(0::nat) < length [1, 2, 3, 4 :: real] \<and> [1, 2, 3, 4 :: real] ! 0 = 1 \<and>
   timer_stats 1 0 [1, 2, 3, 4] 0 None =
     Some \<lparr>min_stat = 1, max_stat = 4, mean_stat = 2.5, std_stat = sqrt 1.25\<rparr>"
  using timer_stats_collector [of 0 "[1, 2, 3, 4]" 1 None]
  by (simp add: power2_eq_square)

subsection \<open>Reading the effects of the output routine and of one pass\<close>

lemma outputs_append [simp]: "outputs (xs @ ys) = outputs xs @ outputs ys"
  by (induction xs rule: outputs.induct) simp_all

lemma timesteps_append [simp]: "timesteps (xs @ ys) = timesteps xs @ timesteps ys"
  by (induction xs rule: timesteps.induct) simp_all

lemma forks_append [simp]: "forks (xs @ ys) = forks xs @ forks ys"
  by (induction xs rule: forks.induct) simp_all

lemma checked_append [simp]: "checked (xs @ ys) = checked xs @ checked ys"
  by (induction xs rule: checked.induct) simp_all

lemma h5_config_getenv_fields:
  "subfiling (h5_config_getenv env) \<longleftrightarrow> env ''H5FD_SUBFILING'' \<noteq> None"
  "h5fuse_local (h5_config_getenv env) \<longleftrightarrow> env ''H5FUSE'' \<noteq> None \<and> env ''LOC'' \<noteq> None"
  "h5fuse_info (h5_config_getenv env) \<longleftrightarrow> env ''H5FUSE'' \<noteq> None"
  by (simp_all add: h5_config_getenv_def Let_def)

lemma outputParticles_clock [simp]:
  "step (outputParticles w s) = step s"
  "time (outputParticles w s) = time s"
  "dt (outputParticles w s) = dt s"
  "pm (outputParticles w s) = pm s"
  "rank (outputParticles w s) = rank s"
  by (simp_all add: outputParticles_def Let_def log_def fork_h5fuse_def split: output_build.splits)

lemma outputParticles_events:
  "\<exists>es. events (outputParticles w s) = events s @ OutputParticles (step s) # es \<and>
        outputs es = [] \<and> timesteps es = [] \<and> checked es = [] \<and>
        forks es = launch_args w (step s)"
  by (cases "output_build w")
     (simp_all add: outputParticles_def Let_def log_def fork_h5fuse_def h5_config_getenv_fields
        launch_args_def local_fuse_def global_fuse_def fusing_def)

lemma outputParticles_nfork:
  "nfork (outputParticles w s) = nfork s + int (length (launch_args w (step s)))"
  by (cases "output_build w")
     (simp_all add: outputParticles_def Let_def log_def fork_h5fuse_def h5_config_getenv_fields
        launch_args_def local_fuse_def global_fuse_def fusing_def)

lemma outputParticles_shmrank:
  "shmrank (outputParticles w s) =
     (if local_fuse w then Some (split_rank (hosts w) (world_rank w)) else shmrank s)"
  by (cases "output_build w")
     (simp_all add: outputParticles_def Let_def log_def fork_h5fuse_def h5_config_getenv_fields
        local_fuse_def global_fuse_def fusing_def)


lemma advance_fields [simp]:
  "dt (advance w tf fr s) = timeStepControl w (pm s) (dt s)"
  "step (advance w tf fr s) = step s + 1"
  "time (advance w tf fr s) = time s + timeStepControl w (pm s) (dt s)"
  "rank (advance w tf fr s) = rank s"
  "shmrank (advance w tf fr s) = shmrank s"
  "nfork (advance w tf fr s) = nfork s"
  "io_stats (advance w tf fr s) = io_stats s"
  "pm (advance w tf fr s) = communicateParticles w (integrate w (pm s) (timeStepControl w (pm s) (dt s)))"
  by (simp_all add: advance_def Let_def log_def)

lemma advance_events:
  "\<exists>es. events (advance w tf fr s) = events s @ es \<and>
        timesteps es = [timeStepControl w (pm s) (dt s)] \<and> outputs es = [] \<and>
        checked es = [] \<and> forks es = []"
  by (simp add: advance_def Let_def log_def)


lemma since_append [simp]: "events s' = events s @ es \<Longrightarrow> since s s' = es"
  by (simp add: since_def)

lemma since_self [simp]: "since s s = []"
  by (simp add: since_def)

lemma loop_body_Inr:
  assumes "loop_body w tf fr s = Inr s'"
  shows "fr \<noteq> 0"
    and "dt s' = timeStepControl w (pm s) (dt s)"
    and "step s' = step s + 1"
    and "time s' = time s + dt s'"
    and "rank s' = rank s"
    and "nfork s' = nfork s + int (length (forks (since s s')))"
    and "shmrank s' = (if local_fuse w \<and> step s' smod fr = 0
                       then Some (split_rank (hosts w) (world_rank w)) else shmrank s)"
    and "\<exists>es. events s' = events s @ es \<and> timesteps es = [dt s'] \<and> checked es = [] \<and>
           outputs es = (if step s' smod fr = 0 then [step s'] else []) \<and>
           forks es = (if step s' smod fr = 0 then launch_args w (step s') else [])"
proof -
  let ?a = "advance w tf fr s"
  obtain es1 where es1: "events ?a = events s @ es1"
    "timesteps es1 = [timeStepControl w (pm s) (dt s)]" "outputs es1 = []"
    "checked es1 = []" "forks es1 = []"
    using advance_events [of w tf fr s] by blast
  obtain es2 where es2: "events (outputParticles w ?a) = events ?a @ OutputParticles (step ?a) # es2"
    "outputs es2 = []" "timesteps es2 = []" "checked es2 = []"
    "forks es2 = launch_args w (step ?a)"
    using outputParticles_events [of w ?a] by blast
  from assms show nz: "fr \<noteq> 0"
    by (auto simp: loop_body_def Let_def split: if_splits)
  from assms nz have s': "s' = (if step ?a smod fr = 0 then outputParticles w ?a else ?a)"
    by (auto simp: loop_body_def Let_def split: if_splits)
  show "dt s' = timeStepControl w (pm s) (dt s)" "step s' = step s + 1" "rank s' = rank s"
    by (simp_all add: s')
  then show "time s' = time s + dt s'"
    by (simp add: s')
  show "shmrank s' = (if local_fuse w \<and> step s' smod fr = 0
                       then Some (split_rank (hosts w) (world_rank w)) else shmrank s)"
    by (simp add: s' outputParticles_shmrank)
  show ex: "\<exists>es. events s' = events s @ es \<and> timesteps es = [dt s'] \<and> checked es = [] \<and>
           outputs es = (if step s' smod fr = 0 then [step s'] else []) \<and>
           forks es = (if step s' smod fr = 0 then launch_args w (step s') else [])"
  proof (cases "step ?a smod fr = 0")
    case True
    then show ?thesis
      using es1 es2 by (intro exI [of _ "es1 @ OutputParticles (step ?a) # es2"]) (simp add: s')
  next
    case False
    then show ?thesis
      using es1 by (intro exI [of _ es1]) (simp add: s')
  qed
  then obtain es where es: "events s' = events s @ es"
    "forks es = (if step s' smod fr = 0 then launch_args w (step s') else [])"
    by blast
  show "nfork s' = nfork s + int (length (forks (since s s')))"
    using es by (simp add: s' outputParticles_nfork)
qed

lemma loop_body_Inl:
  assumes "loop_body w tf fr s = Inl (e, s')"
  shows "fr = 0" and "e = DivisionByZero"
    and "s' = (if rank s = 0 then s else advance w tf fr s)"
  using assms by (auto simp: loop_body_def Let_def split: if_splits)

lemma time_loop_induct [consumes 1, case_names exit fault pass]:
  assumes "time_loop n w tf fr s = Some r"
    and "\<And>s. \<not> time s < tf \<Longrightarrow> P s (Inr s)"
    and "\<And>s e s'. time s < tf \<Longrightarrow> loop_body w tf fr s = Inl (e, s') \<Longrightarrow> P s (Inl (e, s'))"
    and "\<And>s s' r m. time s < tf \<Longrightarrow> loop_body w tf fr s = Inr s' \<Longrightarrow>
           time_loop m w tf fr s' = Some r \<Longrightarrow> P s' r \<Longrightarrow> P s r"
  shows "P s r"
  using assms(1)
proof (induction n arbitrary: s)
  case 0
  then show ?case
    using assms(2) by (auto split: if_splits)
next
  case (Suc n)
  show ?case
  proof (cases "time s < tf")
    case False
    with Suc.prems show ?thesis
      using assms(2) by auto
  next
    case True
    show ?thesis
    proof (cases "loop_body w tf fr s")
      case (Inl a)
      with True Suc.prems show ?thesis
        using assms(3) [of s "fst a" "snd a"] by auto
    next
      case (Inr s')
      with True Suc.prems have "time_loop n w tf fr s' = Some r"
        by simp
      moreover from this have "P s' r"
        by (rule Suc.IH)
      ultimately show ?thesis
        using True Inr assms(4) by blast
    qed
  qed
qed


lemma time_loop_trace:
  assumes "time_loop n w tf fr s = Some r"
  shows "\<exists>es. events (final r) = events s @ es \<and>
           step (final r) = step s + int (length (timesteps es)) \<and>
           time (final r) = time s + sum_list (timesteps es) \<and>
           nfork (final r) = nfork s + int (length (forks es)) \<and>
           rank (final r) = rank s \<and> checked es = []"
  using assms
proof (induction rule: time_loop_induct)
  case (exit s)
  show ?case by simp
next
  case (fault s e s')
  show ?case
    using loop_body_Inl [OF fault(2)] advance_events [of w tf fr s] by auto
next
  case (pass s s' r m)
  from loop_body_Inr [OF pass(2)] obtain es1 where es1: "events s' = events s @ es1"
    "timesteps es1 = [dt s']" "checked es1 = []" "step s' = step s + 1"
    "time s' = time s + dt s'" "rank s' = rank s"
    "nfork s' = nfork s + int (length (forks es1))"
    by (metis since_append)
  from pass(4) obtain es2 where es2: "events (final r) = events s' @ es2"
    "step (final r) = step s' + int (length (timesteps es2))"
    "time (final r) = time s' + sum_list (timesteps es2)"
    "nfork (final r) = nfork s' + int (length (forks es2))"
    "rank (final r) = rank s'" "checked es2 = []"
    by blast
  show ?case
    using es1 es2 by (intro exI [of _ "es1 @ es2"]) simp
qed

lemma time_loop_exit:
  assumes "time_loop n w tf fr s = Some r"
  shows "case r of Inl (e, s') \<Rightarrow> fr = 0 \<and> e = DivisionByZero
         | Inr s' \<Rightarrow> tf \<le> time s' \<and>
             (timesteps (since s s') \<noteq> [] \<longrightarrow> time s' - last (timesteps (since s s')) < tf)"
  using assms
proof (induction rule: time_loop_induct)
  case (exit s)
  then show ?case by simp
next
  case (fault s e s')
  then show ?case
    using loop_body_Inl [OF fault(2)] by simp
next
  case (pass s s' r m)
  show ?case
  proof (cases r)
    case (Inl a)
    with pass(4) show ?thesis by simp
  next
    case (Inr s'')
    from loop_body_Inr [OF pass(2)] obtain es1 where es1: "events s' = events s @ es1"
      "timesteps es1 = [dt s']" "time s' = time s + dt s'"
      by blast
    from time_loop_trace [OF pass(3)] Inr obtain es2 where es2:
      "events s'' = events s' @ es2" "time s'' = time s' + sum_list (timesteps es2)"
      by auto
    from pass(4) Inr es2 have ih: "tf \<le> time s''"
      "timesteps es2 \<noteq> [] \<longrightarrow> time s'' - last (timesteps es2) < tf"
      by simp_all
    have ev: "events s'' = events s @ (es1 @ es2)"
      using es1 es2 by simp
    have "time s'' - last (timesteps (es1 @ es2)) < tf"
    proof (cases "timesteps es2 = []")
      case True
      then show ?thesis
        using es1 es2 pass(1) by simp
    next
      case False
      then show ?thesis
        using ih by simp
    qed
    then show ?thesis
      using Inr ih(1) since_append [OF ev] by simp
  qed
qed


text \<open>
  The loop ends when the controller's values stay above a positive bound: \<open>n\<close> passes
  suffice as soon as \<open>n\<close> times the bound covers the time still to go.
\<close>

lemma loop_body_total:
  "fr \<noteq> 0 \<Longrightarrow> \<exists>s'. loop_body w tf fr s = Inr s'"
  by (simp add: loop_body_def Let_def)

lemma time_loop_terminates:
  assumes "fr \<noteq> 0" and "0 < \<delta>" and "\<And>p d. \<delta> \<le> timeStepControl w p d"
    and "tf - time s \<le> real n * \<delta>"
  shows "\<exists>s'. time_loop n w tf fr s = Some (Inr s')"
  using assms(4)
proof (induction n arbitrary: s)
  case 0
  then show ?case by simp
next
  case (Suc n)
  show ?case
  proof (cases "time s < tf")
    case False
    then show ?thesis by simp
  next
    case True
    from loop_body_total [OF assms(1)] obtain s' where s': "loop_body w tf fr s = Inr s'"
      by blast
    from loop_body_Inr(2,4) [OF s'] assms(3) have "time s + \<delta> \<le> time s'"
      by simp
    with Suc.prems have "tf - time s' \<le> real n * \<delta>"
      by (simp add: algebra_simps)
    from Suc.IH [OF this] show ?thesis
      using True s' by simp
  qed
qed

lemma maps_Checked [simp]:
  "checked (map Checked xs) = xs" "outputs (map Checked xs) = []"
  "timesteps (map Checked xs) = []" "forks (map Checked xs) = []"
  by (induction xs) simp_all

lemma reap_loop_trace:
  "\<exists>xs. final (reap_loop n st cs s) = s\<lparr>events := events s @ map Checked xs\<rparr> \<and>
        (case reap_loop n st cs s of
           Inr s' \<Rightarrow> length xs = n \<and> (\<forall>x\<in>set xs. x = Exited 0)
         | Inl (e, s') \<Rightarrow> e = MPI_Abort_WORLD (- 1) \<and> length xs \<le> n \<and> xs \<noteq> [] \<and>
             last xs \<noteq> Exited 0 \<and> (\<forall>x\<in>set (butlast xs). x = Exited 0))"
proof (induction n arbitrary: st cs s)
  case 0
  show ?case by (intro exI [of _ "[]"]) simp
next
  case (Suc n)
  obtain st' cs' where wp: "waitpid st cs = (st', cs')"
    by (cases "waitpid st cs")
  let ?s' = "log (Checked st') s"
  show ?case
  proof (cases "st' = Exited 0")
    case True
    then have eq: "reap_loop (Suc n) st cs s = reap_loop n st' cs' ?s'"
      by (simp add: wp)
    from Suc.IH [of st' cs' ?s'] obtain xs where
      xs: "final (reap_loop n st' cs' ?s') = ?s'\<lparr>events := events ?s' @ map Checked xs\<rparr>"
      "(case reap_loop n st' cs' ?s' of
           Inr s' \<Rightarrow> length xs = n \<and> (\<forall>x\<in>set xs. x = Exited 0)
         | Inl (e, s') \<Rightarrow> e = MPI_Abort_WORLD (- 1) \<and> length xs \<le> n \<and> xs \<noteq> [] \<and>
             last xs \<noteq> Exited 0 \<and> (\<forall>x\<in>set (butlast xs). x = Exited 0))"
      by blast
    show ?thesis
      unfolding eq using xs True
      by (intro exI [of _ "st' # xs"]) (auto simp: log_def split: sum.splits)
  next
    case False
    then have "reap_loop (Suc n) st cs s = Inl (MPI_Abort_WORLD (- 1), ?s')"
      by (cases st') (simp_all add: wp)
    then show ?thesis
      using False by (intro exI [of _ "[st']"]) (simp add: log_def)
  qed
qed



lemma solve_cases:
  assumes "solve n w tf fr s = Some r"
  obtains (fault) e s' where "time_loop n w tf fr (outputParticles w s) = Some (Inl (e, s'))"
      and "r = Inl (e, s')"
  | (exit) s' where "time_loop n w tf fr (outputParticles w s) = Some (Inr s')"
      and "r = shutdown_reap w s'"
  using assms by (auto simp: solve_def split: option.splits sum.splits)


lemma shutdown_reap_trace:
  "\<exists>xs. final (shutdown_reap w s) = s\<lparr>events := events s @ map Checked xs\<rparr> \<and>
        (case shutdown_reap w s of
           Inr s' \<Rightarrow> length xs = (if read_shmrank w s = 0 then nat (nfork s) else 0)
         | Inl (e, s') \<Rightarrow> e = MPI_Abort_WORLD (- 1) \<and> read_shmrank w s = 0 \<and>
             length xs \<le> nat (nfork s) \<and> xs \<noteq> [] \<and> last xs \<noteq> Exited 0)"
proof (cases "read_shmrank w s = 0")
  case True
  then have eq: "shutdown_reap w s = reap_loop (nat (nfork s)) (unset_status w) (waited w) s"
    by (simp add: shutdown_reap_def)
  let ?r = "reap_loop (nat (nfork s)) (unset_status w) (waited w) s"
  from reap_loop_trace [of "nat (nfork s)" "unset_status w" "waited w" s]
  obtain xs where xs: "final ?r = s\<lparr>events := events s @ map Checked xs\<rparr>"
    "case ?r of
           Inr s' \<Rightarrow> length xs = nat (nfork s) \<and> (\<forall>x\<in>set xs. x = Exited 0)
         | Inl (e, s') \<Rightarrow> e = MPI_Abort_WORLD (- 1) \<and> length xs \<le> nat (nfork s) \<and> xs \<noteq> [] \<and>
             last xs \<noteq> Exited 0 \<and> (\<forall>x\<in>set (butlast xs). x = Exited 0)"
    by blast
  show ?thesis
  proof (cases ?r)
    case (Inl a)
    obtain e s' where a: "a = (e, s')" by (cases a)
    show ?thesis
      unfolding eq using xs True Inl a by (intro exI [of _ xs]) simp
  next
    case (Inr s')
    show ?thesis
      unfolding eq using xs True Inr by (intro exI [of _ xs]) simp
  qed
next
  case False
  then have "shutdown_reap w s = Inr s"
    by (simp add: shutdown_reap_def)
  with False show ?thesis
    by (intro exI [of _ "[]"]) simp
qed

lemma solve_decompose:
  assumes "solve n w tf fr s = Some r"
  shows "\<exists>r1 xs. time_loop n w tf fr (outputParticles w s) = Some r1 \<and>
           final r = (final r1)\<lparr>events := events (final r1) @ map Checked xs\<rparr> \<and>
           (if isl r1 then r = r1 \<and> xs = [] else r = shutdown_reap w (final r1)) \<and>
           (loop_exited r \<longleftrightarrow> \<not> isl r1)"
  using assms
proof (cases rule: solve_cases)
  case (fault e s')
  with time_loop_exit [OF fault(1)] show ?thesis
    by (intro exI [of _ "Inl (e, s')"] exI [of _ "[]"]) simp
next
  case (exit s')
  from shutdown_reap_trace [of w s'] obtain xs where
    xs: "final (shutdown_reap w s') = s'\<lparr>events := events s' @ map Checked xs\<rparr>"
    and c: "case shutdown_reap w s' of
           Inr s'' \<Rightarrow> length xs = (if read_shmrank w s' = 0 then nat (nfork s') else 0)
         | Inl (e, s'') \<Rightarrow> e = MPI_Abort_WORLD (- 1) \<and> read_shmrank w s' = 0 \<and>
             length xs \<le> nat (nfork s') \<and> xs \<noteq> [] \<and> last xs \<noteq> Exited 0"
    by blast
  from c have "loop_exited (shutdown_reap w s')"
    by (cases "shutdown_reap w s'") auto
  with exit xs show ?thesis
    by (intro exI [of _ "Inr s'"] exI [of _ xs]) simp
qed

text \<open>Everything a run of solve has done, split at the entry of the loop and at its end.\<close>

lemma solve_trace:
  assumes "solve n w tf fr s = Some r"
  shows "\<exists>r1 es0 es1 xs.
           time_loop n w tf fr (outputParticles w s) = Some r1 \<and>
           (if isl r1 then r = r1 \<and> xs = [] else r = shutdown_reap w (final r1)) \<and>
           (loop_exited r \<longleftrightarrow> \<not> isl r1) \<and>
           since s (final r) = OutputParticles (step s) # es0 @ es1 @ map Checked xs \<and>
           since (outputParticles w s) (final r1) = es1 \<and>
           outputs es0 = [] \<and> timesteps es0 = [] \<and> checked es0 = [] \<and>
           forks es0 = launch_args w (step s) \<and> checked es1 = [] \<and>
           step (final r) = step s + int (length (timesteps es1)) \<and>
           step (final r1) = step (final r) \<and>
           time (final r) = time s + sum_list (timesteps es1) \<and>
           nfork (final r) = nfork s + int (length (launch_args w (step s))) + int (length (forks es1)) \<and>
           nfork (final r1) = nfork (final r) \<and> time (final r1) = time (final r) \<and>
           shmrank (final r1) = shmrank (final r)"
proof -
  from solve_decompose [OF assms] obtain r1 xs where
    r1: "time_loop n w tf fr (outputParticles w s) = Some r1"
    "final r = (final r1)\<lparr>events := events (final r1) @ map Checked xs\<rparr>"
    "if isl r1 then r = r1 \<and> xs = [] else r = shutdown_reap w (final r1)"
    "loop_exited r \<longleftrightarrow> \<not> isl r1"
    by blast
  from outputParticles_events [of w s] obtain es0 where
    es0: "events (outputParticles w s) = events s @ OutputParticles (step s) # es0"
    "outputs es0 = []" "timesteps es0 = []" "checked es0 = []" "forks es0 = launch_args w (step s)"
    by blast
  from time_loop_trace [OF r1(1)] obtain es1 where
    es1: "events (final r1) = events (outputParticles w s) @ es1"
    "step (final r1) = step (outputParticles w s) + int (length (timesteps es1))"
    "time (final r1) = time (outputParticles w s) + sum_list (timesteps es1)"
    "nfork (final r1) = nfork (outputParticles w s) + int (length (forks es1))"
    "checked es1 = []"
    by blast
  have ev: "events (final r) = events s @ (OutputParticles (step s) # es0 @ es1 @ map Checked xs)"
    using r1(2) es0(1) es1(1) by simp
  show ?thesis
    using r1 es0 es1 since_append [OF ev] since_append [OF es1(1)]
    by (intro exI [of _ r1] exI [of _ es0] exI [of _ es1] exI [of _ xs])
       (simp add: outputParticles_nfork)
qed

lemma smod_eq_0_iff: "(k::int) smod l = 0 \<longleftrightarrow> k mod l = 0"
proof -
  have "k smod l = 0 \<longleftrightarrow> \<bar>k\<bar> mod \<bar>l\<bar> = 0"
    by (auto simp: smod_int_alt_def sgn_if)
  also have "\<dots> \<longleftrightarrow> l dvd k"
    by (simp add: mod_eq_0_iff_dvd)
  finally show ?thesis
    by (simp add: mod_eq_0_iff_dvd)
qed

lemma time_loop_dts:
  assumes "time_loop n w tf fr s = Some r" and "\<And>p d. P (timeStepControl w p d)"
  shows "\<forall>d\<in>set (timesteps (since s (final r))). P d"
  using assms(1)
proof (induction rule: time_loop_induct)
  case (exit s)
  show ?case by simp
next
  case (fault s e s')
  show ?case
    using loop_body_Inl [OF fault(2)] advance_events [of w tf fr s] assms(2) by auto
next
  case (pass s s' r m)
  from loop_body_Inr [OF pass(2)] obtain es1 where es1: "events s' = events s @ es1"
    "timesteps es1 = [dt s']" "dt s' = timeStepControl w (pm s) (dt s)"
    by blast
  from time_loop_trace [OF pass(3)] obtain es2 where es2: "events (final r) = events s' @ es2"
    by blast
  have ev: "events (final r) = events s @ (es1 @ es2)"
    using es1 es2 by simp
  show ?case
    using pass(4) es1 es2 assms(2) since_append [OF ev] by simp
qed

lemma time_loop_outputs:
  assumes "time_loop n w tf fr s = Some r" and "fr \<noteq> 0"
  shows "outputs (since s (final r)) = filter (\<lambda>k. k smod fr = 0) [step s + 1..step (final r)]"
  using assms(1)
proof (induction rule: time_loop_induct)
  case (exit s)
  show ?case by simp
next
  case (fault s e s')
  show ?case
    using loop_body_Inl [OF fault(2)] assms(2) by simp
next
  case (pass s s' r m)
  from loop_body_Inr [OF pass(2)] obtain es1 where es1: "events s' = events s @ es1"
    "outputs es1 = (if step s' smod fr = 0 then [step s'] else [])" "step s' = step s + 1"
    by blast
  from time_loop_trace [OF pass(3)] obtain es2 where es2: "events (final r) = events s' @ es2"
    "step (final r) = step s' + int (length (timesteps es2))"
    by blast
  have ev: "events (final r) = events s @ (es1 @ es2)"
    using es1 es2 by simp
  have "step s + 1 \<le> step (final r)"
    using es1 es2 by simp
  then have "[step s + 1..step (final r)] = (step s + 1) # [step s' + 1..step (final r)]"
    using es1(3) by (simp add: upto_rec1 add.commute)
  then show ?case
    using pass(4) es1 es2 since_append [OF ev] by simp
qed

text \<open>Unfolding the bounded loops at a numeral, for runs on concrete inputs.\<close>

lemma time_loop_unfold:
  "time_loop (numeral k) w tf fr s =
     (if time s < tf then
        (case loop_body w tf fr s of
           Inl e \<Rightarrow> Some (Inl e)
         | Inr s' \<Rightarrow> time_loop (pred_numeral k) w tf fr s')
      else Some (Inr s))"
  by (simp add: numeral_eq_Suc)

lemma reap_loop_unfold:
  "reap_loop (numeral k) status cs s =
     (let (status', cs') = waitpid status cs;
          s' = log (Checked status') s
      in case status' of
           Exited ret \<Rightarrow>
             (if ret \<noteq> 0 then Inl (MPI_Abort_WORLD (- 1), s')
              else reap_loop (pred_numeral k) status' cs' s')
         | Abnormal \<Rightarrow> Inl (MPI_Abort_WORLD (- 1), s'))"
  by (simp add: numeral_eq_Suc)

lemmas run_defs = solve_def Solver_def outputParticles_def loop_body_def advance_def log_def
  Let_def shutdown_reap_def read_shmrank_def fork_h5fuse_def h5_config_getenv_def
  timer_stats_def time_loop_unfold reap_loop_unfold smod_int_alt_def

lemma scenario_run: "solve 4 scenario 1 2 (Solver (3 / 10) 0 ()) = Some (Inr scenario_end)"
  by (simp add: run_defs scenario_def scenario_end_def)

subsection \<open>The clock of the time loop\<close>

text \<open>
  Claim C1. Every completed pass of the loop body hands exactly one \<open>dt\<close> to the
  integrator, adds that \<open>dt\<close> to the time and adds 1 to the step counter. Hence, for
  every run of \<^verbatim>\<open>solve\<close> that leaves the loop, the step counter has grown by the number
  of integrations and the time by the sum of their \<open>dt\<close>s; the time is then at least
  \<open>t_final\<close>, and, if a pass was made, it was below \<open>t_final\<close> before the last
  \<open>dt\<close> was added: the overshoot is less than one \<open>dt\<close>.
\<close>

theorem solve_clock:
  assumes "solve n w tf fr s = Some r" and "loop_exited r"
  shows "(\<forall>a a'. loop_body w tf fr a = Inr a' \<longrightarrow>
            time a' = time a + dt a' \<and> step a' = step a + 1 \<and>
            timesteps (since a a') = [dt a']) \<and>
         step (final r) = step s + int (length (timesteps (since s (final r)))) \<and>
         time (final r) = time s + sum_list (timesteps (since s (final r))) \<and>
         tf \<le> time (final r) \<and>
         (timesteps (since s (final r)) \<noteq> [] \<longrightarrow>
            time (final r) - last (timesteps (since s (final r))) < tf)"
proof -
  have body: "\<forall>a a'. loop_body w tf fr a = Inr a' \<longrightarrow>
            time a' = time a + dt a' \<and> step a' = step a + 1 \<and>
            timesteps (since a a') = [dt a']"
  proof (intro allI impI)
    fix a a' assume b: "loop_body w tf fr a = Inr a'"
    from loop_body_Inr(8) [OF b] obtain es where "events a' = events a @ es"
      "timesteps es = [dt a']" by blast
    then show "time a' = time a + dt a' \<and> step a' = step a + 1 \<and>
            timesteps (since a a') = [dt a']"
      using loop_body_Inr(3,4) [OF b] by simp
  qed
  from solve_trace [OF assms(1)] obtain r1 es0 es1 xs where
    r1: "time_loop n w tf fr (outputParticles w s) = Some r1"
    "loop_exited r \<longleftrightarrow> \<not> isl r1"
    "since s (final r) = OutputParticles (step s) # es0 @ es1 @ map Checked xs"
    "since (outputParticles w s) (final r1) = es1"
    "timesteps es0 = []"
    "step (final r) = step s + int (length (timesteps es1))"
    "time (final r) = time s + sum_list (timesteps es1)"
    "time (final r1) = time (final r)"
    by blast
  have ts: "timesteps (since s (final r)) = timesteps es1"
    using r1 by simp
  from r1(2) assms(2) obtain s1 where s1: "r1 = Inr s1"
    by (cases r1) auto
  from time_loop_exit [OF r1(1)] s1 r1(4) have "tf \<le> time s1"
    "timesteps es1 \<noteq> [] \<longrightarrow> time s1 - last (timesteps es1) < tf"
    by simp_all
  moreover have "time (final r) = time s1"
    using r1(8) s1 by simp
  ultimately show ?thesis
    using body ts r1(6,7) by simp
qed


theorem solve_clock_witness:
  "solve 4 scenario 1 2 (Solver (3 / 10) 0 ()) = Some (Inr scenario_end) \<and>
   loop_exited (Inr scenario_end :: fault \<times> unit solver + unit solver) \<and>
   step scenario_end = 4 \<and> time scenario_end = 6 / 5 \<and>
   timesteps (since (Solver (3 / 10) 0 ()) scenario_end) = [3 / 10, 3 / 10, 3 / 10, 3 / 10] \<and>
   1 \<le> time scenario_end \<and> time scenario_end - 3 / 10 < 1"
  using solve_clock [OF scenario_run] scenario_run
  by (simp add: scenario_end_def Solver_def since_def)

subsection \<open>The time step handed to the integrator\<close>

text \<open>
  Claim C2. If the time-step controller only returns values that are positive and at
  most \<open>max_dt\<close>, then the \<open>dt\<close> that a pass of the loop hands to the integrator
  is positive and at most \<open>max_dt\<close>, and so is every \<open>dt\<close> handed to the integrator
  in a run of \<^verbatim>\<open>solve\<close>.
\<close>

theorem solve_dt_bounds:
  assumes "\<forall>p d. 0 < timeStepControl w p d \<and> timeStepControl w p d \<le> max_dt"
    and "solve n w tf fr s = Some r"
  shows "(\<forall>a a'. loop_body w tf fr a = Inr a' \<longrightarrow>
            timesteps (since a a') = [dt a'] \<and> 0 < dt a' \<and> dt a' \<le> max_dt) \<and>
         (\<forall>d\<in>set (timesteps (since s (final r))). 0 < d \<and> d \<le> max_dt)"
proof -
  have body: "\<forall>a a'. loop_body w tf fr a = Inr a' \<longrightarrow>
            timesteps (since a a') = [dt a'] \<and> 0 < dt a' \<and> dt a' \<le> max_dt"
  proof (intro allI impI)
    fix a a' assume b: "loop_body w tf fr a = Inr a'"
    from loop_body_Inr(8) [OF b] obtain es where "events a' = events a @ es"
      "timesteps es = [dt a']" by blast
    then show "timesteps (since a a') = [dt a'] \<and> 0 < dt a' \<and> dt a' \<le> max_dt"
      using loop_body_Inr(2) [OF b] assms(1) by simp
  qed
  from solve_trace [OF assms(2)] obtain r1 es0 es1 xs where
    r1: "time_loop n w tf fr (outputParticles w s) = Some r1"
    "since s (final r) = OutputParticles (step s) # es0 @ es1 @ map Checked xs"
    "since (outputParticles w s) (final r1) = es1"
    "timesteps es0 = []"
    by blast
  have "\<forall>d\<in>set (timesteps es1). 0 < d \<and> d \<le> max_dt"
    using time_loop_dts [OF r1(1), of "\<lambda>d. 0 < d \<and> d \<le> max_dt"] assms(1) r1(3) by simp
  then show ?thesis
    using body r1(2,4) by simp
qed

theorem solve_dt_bounds_witness:
  "solve 4 scenario 1 2 (Solver (3 / 10) 0 ()) = Some (Inr scenario_end) \<and>
   list_all (\<lambda>d. 0 < d \<and> d \<le> 3 / 10) (timesteps (since (Solver (3 / 10) 0 ()) scenario_end)) \<and>
   timesteps (since (Solver (3 / 10) 0 ()) scenario_end) \<noteq> []"
proof -
  have bounded: "\<forall>p d. 0 < timeStepControl scenario p d \<and> timeStepControl scenario p d \<le> 3 / 10"
    by (simp add: scenario_def)
  from solve_dt_bounds [OF bounded scenario_run]
  have "list_all (\<lambda>d. 0 < d \<and> d \<le> 3 / 10) (timesteps (since (Solver (3 / 10) 0 ()) scenario_end))"
    by (simp add: list_all_iff)
  then show ?thesis
    using scenario_run by (simp add: scenario_end_def Solver_def since_def)
qed

subsection \<open>When output is emitted\<close>

text \<open>
  For a positive \<^verbatim>\<open>write_freq\<close>, the steps at which a run of \<^verbatim>\<open>solve\<close> enters
  \<^verbatim>\<open>outputParticles\<close> are the step at which \<^verbatim>\<open>solve\<close> was called, as the very first
  effect of the run, and then the later steps that are multiples of \<^verbatim>\<open>write_freq\<close>,
  whatever the build writes there.
\<close>

lemma solve_output_entries:
  assumes "0 < fr" and "solve n w tf fr s = Some r"
  shows "outputs (since s (final r)) =
           step s # filter (\<lambda>k. k mod fr = 0) [step s + 1..step (final r)] \<and>
         hd (since s (final r)) = OutputParticles (step s)"
proof -
  from solve_trace [OF assms(2)] obtain r1 es0 es1 xs where
    r1: "time_loop n w tf fr (outputParticles w s) = Some r1"
    "since s (final r) = OutputParticles (step s) # es0 @ es1 @ map Checked xs"
    "since (outputParticles w s) (final r1) = es1"
    "outputs es0 = []" "step (final r1) = step (final r)"
    by blast
  from assms(1) have "fr \<noteq> 0" by simp
  from time_loop_outputs [OF r1(1) this]
  have "outputs es1 = filter (\<lambda>k. k mod fr = 0) [step s + 1..step (final r)]"
    using r1(3,5) by (simp add: smod_eq_0_iff)
  then show ?thesis
    using r1(2,4) by simp
qed

text \<open>
  What a call of \<^verbatim>\<open>outputParticles\<close> writes: with the HDF5 or the Silo writer one
  \<^verbatim>\<open>writeTimeStep\<close> for the current step and time, right after the entry; in a build
  with neither writer nothing. Hence the steps written by the loop are, where a writer
  is built in, the steps at which the routine is entered.
\<close>

lemma writes_append [simp]: "writes (xs @ ys) = writes xs @ writes ys"
  by (induction xs rule: writes.induct) simp_all

lemma writes_Checked [simp]: "writes (map Checked xs) = []"
  by (induction xs) simp_all

lemma outputParticles_writes:
  "\<exists>es. events (outputParticles w s) = events s @ OutputParticles (step s) # es \<and>
        writes es = (if output_build w = NO_OUTPUT then [] else [(step s, time s)]) \<and>
        (output_build w \<noteq> NO_OUTPUT \<longrightarrow> take 1 es = [WriteTimeStep (step s) (time s)])"
  by (cases "output_build w")
     (simp_all add: outputParticles_def Let_def log_def fork_h5fuse_def)

lemma advance_writes:
  "\<exists>es. events (advance w tf fr s) = events s @ es \<and> writes es = [] \<and> outputs es = []"
  by (simp add: advance_def Let_def log_def)

lemma loop_body_writes:
  assumes "loop_body w tf fr s = Inr s'"
  shows "map fst (writes (since s s')) =
           (if output_build w = NO_OUTPUT then [] else outputs (since s s'))"
proof -
  let ?a = "advance w tf fr s"
  obtain es1 where es1: "events ?a = events s @ es1" "writes es1 = []" "outputs es1 = []"
    using advance_writes [of w tf fr s] by blast
  obtain es2 where es2:
    "events (outputParticles w ?a) = events ?a @ OutputParticles (step ?a) # es2"
    "writes es2 = (if output_build w = NO_OUTPUT then [] else [(step ?a, time ?a)])"
    using outputParticles_writes [of w ?a] by blast
  obtain es3 where es3:
    "events (outputParticles w ?a) = events ?a @ OutputParticles (step ?a) # es3"
    "outputs es3 = []"
    using outputParticles_events [of w ?a] by blast
  from es2(1) es3(1) have same: "es3 = es2"
    by simp
  from assms have nz: "fr \<noteq> 0"
    by (rule loop_body_Inr(1))
  from assms nz have s': "s' = (if step ?a smod fr = 0 then outputParticles w ?a else ?a)"
    by (auto simp: loop_body_def Let_def split: if_splits)
  show ?thesis
  proof (cases "step ?a smod fr = 0")
    case True
    then have "events s' = events s @ (es1 @ OutputParticles (step ?a) # es2)"
      using s' es1(1) es2(1) by simp
    from since_append [OF this] show ?thesis
      using es1 es2(2) es3(2) same by simp
  next
    case False
    then have "events s' = events s @ es1"
      using s' es1(1) by simp
    from since_append [OF this] show ?thesis
      using es1 by simp
  qed
qed

lemma time_loop_writes:
  assumes "time_loop n w tf fr s = Some r"
  shows "map fst (writes (since s (final r))) =
           (if output_build w = NO_OUTPUT then [] else outputs (since s (final r)))"
  using assms
proof (induction rule: time_loop_induct)
  case (exit s)
  show ?case by simp
next
  case (fault s e s')
  from advance_writes [of w tf fr s] obtain es where
    "events (advance w tf fr s) = events s @ es" "writes es = []" "outputs es = []"
    by blast
  then show ?case
    using loop_body_Inl(3) [OF fault(2)] by (cases "rank s = 0") simp_all
next
  case (pass s s' r m)
  from loop_body_Inr(8) [OF pass(2)] obtain es1 where es1: "events s' = events s @ es1"
    by blast
  from time_loop_trace [OF pass(3)] obtain es2 where es2: "events (final r) = events s' @ es2"
    by blast
  have ev: "events (final r) = events s @ (es1 @ es2)"
    using es1 es2 by simp
  show ?case
    using pass(4) loop_body_writes [OF pass(2)] since_append [OF ev] since_append [OF es1]
      since_append [OF es2]
    by simp
qed


lemma scenario_silent_run:
  "solve 4 scenario_silent 1 2 (Solver (3 / 10) 0 ()) = Some (Inr scenario_silent_end)"
  by (simp add: run_defs scenario_def scenario_silent_def scenario_silent_end_def)

text \<open>
  Claim C3, as the code has it. Let \<^verbatim>\<open>write_freq\<close> be positive. In a build with the
  HDF5 or the Silo writer, the steps for which a run of \<^verbatim>\<open>solve\<close> writes particle
  output are, in this order: the step at which \<^verbatim>\<open>solve\<close> was called (step 0 for a new
  solver), written once with the time of that state before the loop is entered, and
  then exactly the later steps up to the last one that are multiples of \<^verbatim>\<open>write_freq\<close>.
  In a build with neither writer no particle output is written at any step.
\<close>

theorem solve_writes:
  assumes "0 < fr" and "solve n w tf fr s = Some r"
  shows "(output_build w \<noteq> NO_OUTPUT \<longrightarrow>
            map fst (writes (since s (final r))) =
              step s # filter (\<lambda>k. k mod fr = 0) [step s + 1..step (final r)] \<and>
            take 2 (since s (final r)) =
              [OutputParticles (step s), WriteTimeStep (step s) (time s)]) \<and>
         (output_build w = NO_OUTPUT \<longrightarrow> writes (since s (final r)) = [])"
proof -
  let ?o = "outputParticles w s"
  from solve_decompose [OF assms(2)] obtain r1 xs where
    r1: "time_loop n w tf fr ?o = Some r1"
    "final r = (final r1)\<lparr>events := events (final r1) @ map Checked xs\<rparr>"
    by blast
  from outputParticles_writes [of w s] obtain es0 where
    es0: "events ?o = events s @ OutputParticles (step s) # es0"
    "writes es0 = (if output_build w = NO_OUTPUT then [] else [(step s, time s)])"
    "output_build w \<noteq> NO_OUTPUT \<longrightarrow> take 1 es0 = [WriteTimeStep (step s) (time s)]"
    by blast
  from time_loop_trace [OF r1(1)] obtain es1 where
    es1: "events (final r1) = events ?o @ es1"
    by blast
  have ev: "events (final r) = events s @ (OutputParticles (step s) # es0 @ es1 @ map Checked xs)"
    using r1(2) es0(1) es1 by simp
  have all: "since s (final r) = OutputParticles (step s) # es0 @ es1 @ map Checked xs"
    by (rule since_append [OF ev])
  have loop: "since ?o (final r1) = es1"
    by (rule since_append [OF es1])
  from assms(1) have nz: "fr \<noteq> 0"
    by simp
  have steps: "step (final r1) = step (final r)"
    using r1(2) by simp
  have entries: "outputs es1 = filter (\<lambda>k. k mod fr = 0) [step s + 1..step (final r)]"
    using time_loop_outputs [OF r1(1) nz] loop steps by (simp add: smod_eq_0_iff)
  have w1: "map fst (writes es1) = (if output_build w = NO_OUTPUT then [] else outputs es1)"
    using time_loop_writes [OF r1(1)] loop by simp
  have none: "writes (since s (final r)) = []" if "output_build w = NO_OUTPUT"
  proof -
    from w1 that have "writes es1 = []"
      by simp
    with es0(2) that show ?thesis
      by (simp add: all)
  qed
  have some: "map fst (writes (since s (final r))) =
        step s # filter (\<lambda>k. k mod fr = 0) [step s + 1..step (final r)] \<and>
      take 2 (since s (final r)) = [OutputParticles (step s), WriteTimeStep (step s) (time s)]"
    if b: "output_build w \<noteq> NO_OUTPUT"
  proof -
    from es0(3) b obtain es0' where "es0 = WriteTimeStep (step s) (time s) # es0'"
      by (cases es0) auto
    then have "take 2 (since s (final r)) =
        [OutputParticles (step s), WriteTimeStep (step s) (time s)]"
      by (simp add: all)
    moreover have "map fst (writes (since s (final r))) =
        step s # filter (\<lambda>k. k mod fr = 0) [step s + 1..step (final r)]"
      using es0(2) w1 entries b by (simp add: all)
    ultimately show ?thesis
      by simp
  qed
  from none some show ?thesis
    by blast
qed

theorem solve_writes_witness:
  "(0::int) < 2 \<and> output_build scenario \<noteq> NO_OUTPUT \<and>
   solve 4 scenario 1 2 (Solver (3 / 10) 0 ()) = Some (Inr scenario_end) \<and>
   map fst (writes (since (Solver (3 / 10) 0 ()) scenario_end)) = [0, 2, 4] \<and>
   take 2 (since (Solver (3 / 10) 0 ()) scenario_end) = [OutputParticles 0, WriteTimeStep 0 0] \<and>
   output_build scenario_silent = NO_OUTPUT \<and>
   solve 4 scenario_silent 1 2 (Solver (3 / 10) 0 ()) = Some (Inr scenario_silent_end) \<and>
   writes (since (Solver (3 / 10) 0 ()) scenario_silent_end) = []"
proof -
  have pos: "(0::int) < 2"
    by simp
  have silo: "output_build scenario \<noteq> NO_OUTPUT"
    by (simp add: scenario_def)
  have silent: "output_build scenario_silent = NO_OUTPUT"
    by (simp add: scenario_silent_def)
  have first: "take 2 (since (Solver (3 / 10) 0 ()) scenario_end) =
      [OutputParticles 0, WriteTimeStep 0 0]"
    using solve_writes [OF pos scenario_run] silo by (simp add: Solver_def)
  have steps: "map fst (writes (since (Solver (3 / 10) 0 ()) scenario_end)) = [0, 2, 4]"
    by (simp add: scenario_end_def Solver_def since_def)
  have unwritten: "writes (since (Solver (3 / 10) 0 ()) scenario_silent_end) = []"
    using solve_writes [OF pos scenario_silent_run] silent by simp
  from pos silo scenario_run steps first have "(0::int) < 2 \<and> output_build scenario \<noteq> NO_OUTPUT \<and>
     solve 4 scenario 1 2 (Solver (3 / 10) 0 ()) = Some (Inr scenario_end) \<and>
     map fst (writes (since (Solver (3 / 10) 0 ()) scenario_end)) = [0, 2, 4] \<and>
     take 2 (since (Solver (3 / 10) 0 ()) scenario_end) = [OutputParticles 0, WriteTimeStep 0 0]"
    by (intro conjI)
  moreover from silent scenario_silent_run unwritten have
    "output_build scenario_silent = NO_OUTPUT \<and>
     solve 4 scenario_silent 1 2 (Solver (3 / 10) 0 ()) = Some (Inr scenario_silent_end) \<and>
     writes (since (Solver (3 / 10) 0 ()) scenario_silent_end) = []"
    by (intro conjI)
  ultimately show ?thesis
    by (simp only: simp_thms)
qed

text \<open>
  Claim C3 as stated fails in a build with neither writer: the run enters
  \<^verbatim>\<open>outputParticles\<close> at the steps 0, 2 and 4 and writes nothing.
\<close>

theorem solve_writes_counterexample:
  "(0::int) < 2 \<and>
   solve 4 scenario_silent 1 2 (Solver (3 / 10) 0 ()) = Some (Inr scenario_silent_end) \<and>
   outputs (events scenario_silent_end) = [0, 2, 4] \<and>
   writes (events scenario_silent_end) = []"
proof -
  have "outputs (events scenario_silent_end) = [0, 2, 4]"
    "writes (events scenario_silent_end) = []"
    by (simp_all add: scenario_silent_end_def)
  with scenario_silent_run show ?thesis
    by simp
qed

subsection \<open>The member shmrank and the concrete fusion runs\<close>

lemma time_loop_shmrank:
  assumes "time_loop n w tf fr s = Some r" and "\<not> local_fuse w"
  shows "shmrank (final r) = shmrank s"
  using assms(1)
proof (induction rule: time_loop_induct)
  case (exit s)
  show ?case by simp
next
  case (fault s e s')
  show ?case
    using loop_body_Inl [OF fault(2)] by simp
next
  case (pass s s' r m)
  then show ?case
    using loop_body_Inr(7) [OF pass(2)] assms(2) by simp
qed

lemma time_loop_shmrank_local:
  assumes "time_loop n w tf fr s = Some r" and "local_fuse w"
    and "shmrank s = Some (split_rank (hosts w) (world_rank w))"
  shows "shmrank (final r) = Some (split_rank (hosts w) (world_rank w))"
  using assms(1,3)
proof (induction rule: time_loop_induct)
  case (exit s)
  then show ?case by simp
next
  case (fault s e s')
  then show ?case
    using loop_body_Inl [OF fault(2)] by simp
next
  case (pass s s' r m)
  then show ?case
    using loop_body_Inr(7) [OF pass(2)] by simp
qed

lemma solve_exit:
  assumes "time_loop n w tf fr (outputParticles w s0) = Some (Inr s)"
  shows "solve n w tf fr s0 = Some (shutdown_reap w s)"
  using assms by (simp add: solve_def)

lemma solve_returns:
  assumes "fr \<noteq> 0" and "0 < \<delta>" and "\<And>p d. \<delta> \<le> timeStepControl w p d"
    and "tf - time s \<le> real n * \<delta>"
  shows "\<exists>r. solve n w tf fr s = Some r"
proof -
  have "tf - time (outputParticles w s) \<le> real n * \<delta>"
    using assms(4) by simp
  from time_loop_terminates [OF assms(1,2,3) this] obtain s' where
    "time_loop n w tf fr (outputParticles w s) = Some (Inr s')"
    by blast
  then show ?thesis
    by (simp add: solve_exit)
qed

lemma split_rank_hosts: "split_rank [0, 0, Suc 0, Suc 0] 2 = 0"
  by (simp add: split_rank_def upt_rec numeral_2_eq_2)

lemma scenario_local_loop:
  "time_loop 4 scenario_local 1 2 (outputParticles scenario_local (Solver (3 / 10) 2 ()))
     = Some (Inr scenario_local_exit)"
  by (simp add: run_defs scenario_def scenario_local_def scenario_local_exit_def fuse_env_def
      split_rank_hosts)

lemma scenario_local_run:
  "solve 4 scenario_local 1 2 (Solver (3 / 10) 2 ()) = Some (Inr scenario_local_end)"
  by (simp add: solve_exit [OF scenario_local_loop])
     (simp add: run_defs scenario_def scenario_local_def scenario_local_exit_def
        scenario_local_end_def)

lemma scenario_global_loop:
  "time_loop 4 scenario_global 1 2 (outputParticles scenario_global (Solver (3 / 10) 0 ()))
     = Some (Inr scenario_global_end)"
  by (simp add: run_defs scenario_def scenario_global_def scenario_global_end_def fuse_env_def)

subsection \<open>The shutdown reap\<close>



subsection \<open>The counter of forked fusion processes\<close>

text \<open>
  Claim C4, as the code has it. The counter \<^verbatim>\<open>nfork\<close> is zero in a fresh process and
  grows by one with every \<^verbatim>\<open>fork()\<close> of a fusion process; \<^verbatim>\<open>solve\<close> never resets it, so
  at its end the counter is its initial value plus the number of forks of the run. The
  reap examines at most \<^verbatim>\<open>nfork\<close> statuses; when \<^verbatim>\<open>solve\<close> returns normally, it has
  examined exactly \<^verbatim>\<open>nfork\<close> statuses on a participant whose \<^verbatim>\<open>shmrank\<close> reads 0 and
  none on any other participant. In local-fuse mode \<^verbatim>\<open>shmrank\<close> is the rank within the
  node, so the reap is done by every node leader, not by global rank 0 alone.
\<close>

theorem solve_counter:
  assumes "solve n w tf fr s = Some r"
  shows "nfork (Solver delta_t k p) = 0 \<and>
         nfork (fork_h5fuse args s) = nfork s + 1 \<and>
         nfork (final r) = nfork s + int (length (forks (since s (final r)))) \<and>
         length (checked (since s (final r))) \<le> nat (nfork (final r)) \<and>
         (\<forall>s'. r = Inr s' \<longrightarrow>
            length (checked (since s s')) = (if read_shmrank w s' = 0 then nat (nfork s') else 0)) \<and>
         (local_fuse w \<longrightarrow> read_shmrank w (final r) = split_rank (hosts w) (world_rank w))"
proof -
  from solve_trace [OF assms] obtain r1 es0 es1 xs where
    r1: "time_loop n w tf fr (outputParticles w s) = Some r1"
    "if isl r1 then r = r1 \<and> xs = [] else r = shutdown_reap w (final r1)"
    "since s (final r) = OutputParticles (step s) # es0 @ es1 @ map Checked xs"
    "checked es0 = []" "forks es0 = launch_args w (step s)" "checked es1 = []"
    "nfork (final r) = nfork s + int (length (launch_args w (step s))) + int (length (forks es1))"
    "nfork (final r1) = nfork (final r)" "shmrank (final r1) = shmrank (final r)"
    by blast
  have c: "checked (since s (final r)) = xs" and f: "forks (since s (final r)) = forks es0 @ forks es1"
    using r1(3,4,6) by simp_all
  have rs: "read_shmrank w (final r1) = read_shmrank w (final r)"
    using r1(9) by (simp add: read_shmrank_def)
  have count: "length xs \<le> nat (nfork (final r)) \<and>
      (\<forall>s'. r = Inr s' \<longrightarrow> length xs = (if read_shmrank w s' = 0 then nat (nfork s') else 0))"
  proof (cases "isl r1")
    case True
    with r1(2) show ?thesis
      by (cases r1) auto
  next
    case False
    with r1(2) have r: "r = shutdown_reap w (final r1)"
      by simp
    from shutdown_reap_trace [of w "final r1"] obtain ys where
      ys: "final r = (final r1)\<lparr>events := events (final r1) @ map Checked ys\<rparr>"
      and cs: "case r of
           Inr s' \<Rightarrow> length ys = (if read_shmrank w (final r1) = 0 then nat (nfork (final r1)) else 0)
         | Inl (e, s') \<Rightarrow> e = MPI_Abort_WORLD (- 1) \<and> read_shmrank w (final r1) = 0 \<and>
             length ys \<le> nat (nfork (final r1)) \<and> ys \<noteq> [] \<and> last ys \<noteq> Exited 0"
      unfolding r by blast
    from time_loop_trace [OF r1(1)] obtain es where
      es: "events (final r1) = events (outputParticles w s) @ es" "checked es = []"
      by blast
    from outputParticles_events [of w s] obtain es' where
      es': "events (outputParticles w s) = events s @ OutputParticles (step s) # es'"
      "checked es' = []"
      by blast
    have "events (final r) = events s @ (OutputParticles (step s) # es' @ es @ map Checked ys)"
      using ys es es' by simp
    from since_append [OF this] have "xs = ys"
      using c es(2) es'(2) by simp
    with cs r1(8) rs show ?thesis
      by (cases r) (auto split: if_splits)
  qed
  have loc: "read_shmrank w (final r) = split_rank (hosts w) (world_rank w)" if "local_fuse w"
  proof -
    have "shmrank (outputParticles w s) = Some (split_rank (hosts w) (world_rank w))"
      using that by (simp add: outputParticles_shmrank)
    from time_loop_shmrank_local [OF r1(1) that this] show ?thesis
      using r1(9) by (simp add: read_shmrank_def)
  qed
  have count': "\<forall>s'. r = Inr s' \<longrightarrow>
      length (checked (since s s')) = (if read_shmrank w s' = 0 then nat (nfork s') else 0)"
  proof (intro allI impI)
    fix s' assume "r = Inr s'"
    with c count show "length (checked (since s s')) =
        (if read_shmrank w s' = 0 then nat (nfork s') else 0)"
      by auto
  qed
  have "nfork (final r) = nfork s + int (length (forks (since s (final r))))"
    using f r1(5,7) by simp
  moreover have "length (checked (since s (final r))) \<le> nat (nfork (final r))"
    using c count by simp
  moreover have "nfork (Solver delta_t k p) = 0" "nfork (fork_h5fuse args s) = nfork s + 1"
    by (simp_all add: Solver_def fork_h5fuse_def log_def)
  ultimately show ?thesis
    using count' loc by blast
qed

theorem solve_counter_witness:
  "solve 4 scenario_local 1 2 (Solver (3 / 10) 2 ()) = Some (Inr scenario_local_end) \<and>
   nfork scenario_local_end = 3 \<and>
   length (forks (since (Solver (3 / 10) 2 ()) scenario_local_end)) = 3 \<and>
   length (checked (since (Solver (3 / 10) 2 ()) scenario_local_end)) = 3 \<and>
   read_shmrank scenario_local scenario_local_end = 0 \<and> local_fuse scenario_local"
proof -
  have loc: "local_fuse scenario_local"
    by (simp add: local_fuse_def fusing_def scenario_local_def scenario_def fuse_env_def)
  have "nfork scenario_local_end = 3"
    "length (forks (since (Solver (3 / 10) 2 ()) scenario_local_end)) = 3"
    "length (checked (since (Solver (3 / 10) 2 ()) scenario_local_end)) = 3"
    using solve_counter [OF scenario_local_run, of 0 0 "()" "[]"]
    by (simp_all add: scenario_local_end_def scenario_local_exit_def Solver_def since_def)
  moreover have "read_shmrank scenario_local scenario_local_end = 0"
    by (simp add: read_shmrank_def scenario_local_end_def scenario_local_exit_def)
  ultimately show ?thesis
    using scenario_local_run loc by (intro conjI)
qed

text \<open>
  Claim C4 as stated fails: in the local-fuse scenario the participant with global rank 2
  performs the reap and examines three statuses, and the counter still is 3 afterwards.
\<close>

theorem solve_counter_counterexample:
  "world_rank scenario_local = 2 \<and>
   solve 4 scenario_local 1 2 (Solver (3 / 10) 2 ()) = Some (Inr scenario_local_end) \<and>
   checked (events scenario_local_end) = [Exited 0, Exited 0, Exited 0] \<and>
   nfork scenario_local_end = 3"
proof -
  have "world_rank scenario_local = 2"
    by (simp add: scenario_local_def)
  moreover have "checked (events scenario_local_end) = [Exited 0, Exited 0, Exited 0]"
    "nfork scenario_local_end = 3"
    by (simp_all add: scenario_local_end_def scenario_local_exit_def)
  ultimately show ?thesis
    using scenario_local_run by (intro conjI)
qed

subsection \<open>The unset member shmrank\<close>

text \<open>
  Claim C10. If the local-fuse branch cannot be taken (no HDF5 build, \<^verbatim>\<open>H5FUSE\<close> or
  \<^verbatim>\<open>H5FD_SUBFILING\<close> unset, or \<^verbatim>\<open>LOC\<close> unset) and the member \<^verbatim>\<open>shmrank\<close> has never been
  assigned when \<^verbatim>\<open>solve\<close> is called, then it still has never been assigned when the loop
  is left; the guard of the reap reads the unset value, and whether the participant
  reaps depends on that value alone, whatever its rank is.
\<close>

theorem unset_shmrank_decides_reap:
  assumes "\<not> local_fuse w" and "shmrank s = None"
    and "time_loop n w tf fr (outputParticles w s) = Some (Inr s1)"
  shows "shmrank s1 = None \<and> read_shmrank w s1 = unset_shmrank w \<and>
         solve n w tf fr s =
           Some (if unset_shmrank w = 0
                 then reap_loop (nat (nfork s1)) (unset_status w) (waited w) s1
                 else Inr s1)"
proof -
  have "shmrank (outputParticles w s) = None"
    using assms(1,2) by (simp add: outputParticles_shmrank)
  with time_loop_shmrank [OF assms(3,1)] have none: "shmrank s1 = None"
    by simp
  then have "read_shmrank w s1 = unset_shmrank w"
    by (simp add: read_shmrank_def)
  with none solve_exit [OF assms(3)] show ?thesis
    by (simp add: shutdown_reap_def)
qed
theorem unset_shmrank_decides_reap_witness:
  "\<not> local_fuse scenario_global \<and> shmrank (Solver (3 / 10) 0 () :: unit solver) = None \<and>
   unset_shmrank scenario_global = 7 \<and> nfork scenario_global_end = 3 \<and>
   solve 4 scenario_global 1 2 (Solver (3 / 10) 0 ()) = Some (Inr scenario_global_end) \<and>
   checked (events scenario_global_end) = []"
proof -
  have glob: "\<not> local_fuse scenario_global"
    by (simp add: local_fuse_def fusing_def scenario_global_def scenario_def fuse_env_def)
  have none: "shmrank (Solver (3 / 10) 0 () :: unit solver) = None"
    by (simp add: Solver_def)
  have seven: "unset_shmrank scenario_global = 7"
    by (simp add: scenario_global_def)
  have "solve 4 scenario_global 1 2 (Solver (3 / 10) 0 ()) = Some (Inr scenario_global_end)"
    using unset_shmrank_decides_reap [OF glob none scenario_global_loop] seven by simp
  moreover have "nfork scenario_global_end = 3" "checked (events scenario_global_end) = []"
    by (simp_all add: scenario_global_end_def)
  ultimately show ?thesis
    using glob none seven by (intro conjI)
qed

subsection \<open>Who launches the fusion process\<close>

lemma split_rank_0_iff: "split_rank hs r = 0 \<longleftrightarrow> (\<forall>q<r. hs ! q \<noteq> hs ! r)"
  by (auto simp: split_rank_def filter_empty_conv)

lemma filter_eq_upt: "m < n \<Longrightarrow> filter (\<lambda>r. r = m) [0..<n] = [m]"
proof (induction n)
  case 0
  then show ?case by simp
next
  case (Suc n)
  show ?case
  proof (cases "m = n")
    case True
    have "filter (\<lambda>r. r = n) [0..<n] = []"
      by (simp add: filter_empty_conv)
    with True show ?thesis by simp
  next
    case False
    with Suc show ?thesis by simp
  qed
qed

lemma node_leader_unique:
  assumes "g \<in> set hs"
  shows "filter (\<lambda>r. split_rank hs r = 0) (node_members hs g) = [LEAST r. r < length hs \<and> hs ! r = g]"
proof -
  define m where "m = (LEAST r. r < length hs \<and> hs ! r = g)"
  from assms obtain i where "i < length hs" "hs ! i = g"
    unfolding in_set_conv_nth by blast
  then have "i < length hs \<and> hs ! i = g"
    by simp
  then have "m < length hs \<and> hs ! m = g"
    unfolding m_def by (rule LeastI)
  then have m: "m < length hs" "hs ! m = g"
    by simp_all
  have least: "m \<le> q" if "q < length hs" "hs ! q = g" for q
    unfolding m_def using that by (intro Least_le conjI)
  have iff: "(hs ! r = g \<and> split_rank hs r = 0) \<longleftrightarrow> r = m" if r: "r < length hs" for r
  proof
    assume a: "hs ! r = g \<and> split_rank hs r = 0"
    then have rg: "hs ! r = g" and z: "split_rank hs r = 0"
      by simp_all
    from z have "\<forall>q<r. hs ! q \<noteq> hs ! r"
      by (simp only: split_rank_0_iff)
    then have no: "\<forall>q<r. hs ! q \<noteq> g"
      unfolding rg .
    from a r have "m \<le> r"
      by (intro least) simp_all
    moreover have "\<not> m < r"
      using no m(2) by blast
    ultimately show "r = m"
      by simp
  next
    assume rm: "r = m"
    have "hs ! q \<noteq> g" if "q < m" for q
    proof
      assume "hs ! q = g"
      moreover from that m(1) have "q < length hs" by simp
      ultimately have "m \<le> q"
        by (intro least)
      with that show False by simp
    qed
    then have "\<forall>q<m. hs ! q \<noteq> hs ! m"
      unfolding m(2) by blast
    then have "split_rank hs m = 0"
      by (simp only: split_rank_0_iff)
    with m(2) rm show "hs ! r = g \<and> split_rank hs r = 0"
      by simp
  qed
  have "filter (\<lambda>r. split_rank hs r = 0) (node_members hs g)
      = filter (\<lambda>r. hs ! r = g \<and> split_rank hs r = 0) [0..<length hs]"
    by (simp add: node_members_def)
  also have "\<dots> = filter (\<lambda>r. r = m) [0..<length hs]"
  proof (rule filter_cong [OF refl])
    fix r assume "r \<in> set [0..<length hs]"
    then have "r < length hs" by simp
    then show "(hs ! r = g \<and> split_rank hs r = 0) = (r = m)"
      by (rule iff)
  qed
  also have "\<dots> = [m]"
    using m(1) by (rule filter_eq_upt)
  finally show ?thesis
    unfolding m_def .
qed

lemma launches_eq: "launches w s = length (launch_args w (step s))"
proof -
  from outputParticles_events [of w s] obtain es where
    "events (outputParticles w s) = events s @ OutputParticles (step s) # es"
    "forks es = launch_args w (step s)"
    by blast
  then show ?thesis
    by (simp add: launches_def)
qed

lemma participant_fuse [simp]:
  "local_fuse (participant w r) = local_fuse w"
  "global_fuse (participant w r) = global_fuse w"
  by (simp_all add: participant_def local_fuse_def global_fuse_def fusing_def)

lemma launches_local:
  "local_fuse w \<Longrightarrow>
     launches (participant w r) s = (if split_rank (hosts w) r = 0 then 1 else 0)"
  by (simp add: launches_eq launch_args_def) (simp add: participant_def)

lemma launches_global:
  "global_fuse w \<Longrightarrow>
     launches (participant w r) s = (if written_subfilenames w r (step s) \<noteq> [] then 1 else 0)"
  by (simp add: launches_eq launch_args_def)
     (simp add: participant_def local_fuse_def global_fuse_def)

lemma sum_list_indicator:
  "sum_list (map (\<lambda>r. if P r then 1 else 0) xs) = length (filter P xs)"
  by (induction xs) simp_all

text \<open>
  Claim C6, as the code has it. When every participant calls \<^verbatim>\<open>outputParticles\<close> once
  with fusion enabled and subfiling active: in local-fuse mode the members of a node
  launch exactly one fusion process between them, and the member that launches it is the
  one whose rank within the node is 0; in global-fuse mode there is no election: a
  participant launches one fusion process exactly when its own write reported a non-empty
  list of subfile names, so the number of launches in the job is the number of such
  participants.
\<close>

theorem fusion_launches:
  "(local_fuse w \<and> g \<in> set (hosts w) \<longrightarrow>
      job_launches w st (node_members (hosts w) g) = 1 \<and>
      (\<forall>r\<in>set (node_members (hosts w) g).
         launches (participant w r) (st r) = (if split_rank (hosts w) r = 0 then 1 else 0))) \<and>
   (global_fuse w \<longrightarrow>
      (\<forall>r. launches (participant w r) (st r) =
            (if written_subfilenames w r (step (st r)) \<noteq> [] then 1 else 0)) \<and>
      job_launches w st (all_ranks w) =
        length (filter (\<lambda>r. written_subfilenames w r (step (st r)) \<noteq> []) (all_ranks w)))"
proof (intro conjI impI)
  assume a: "local_fuse w \<and> g \<in> set (hosts w)"
  then have "job_launches w st (node_members (hosts w) g) =
      length (filter (\<lambda>r. split_rank (hosts w) r = 0) (node_members (hosts w) g))"
    by (simp add: job_launches_def launches_local sum_list_indicator)
  also have "\<dots> = 1"
    using a by (simp add: node_leader_unique)
  finally show "job_launches w st (node_members (hosts w) g) = 1" .
  show "\<forall>r\<in>set (node_members (hosts w) g).
         launches (participant w r) (st r) = (if split_rank (hosts w) r = 0 then 1 else 0)"
    using a by (simp add: launches_local)
next
  assume a: "global_fuse w"
  then show "\<forall>r. launches (participant w r) (st r) =
            (if written_subfilenames w r (step (st r)) \<noteq> [] then 1 else 0)"
    by (simp add: launches_global)
  show "job_launches w st (all_ranks w) =
        length (filter (\<lambda>r. written_subfilenames w r (step (st r)) \<noteq> []) (all_ranks w))"
    using a by (simp add: job_launches_def launches_global sum_list_indicator)
qed

theorem fusion_launches_witness:
  "local_fuse scenario_local \<and> 1 \<in> set (hosts scenario_local) \<and>
   job_launches scenario_local job_states (node_members (hosts scenario_local) 1) = 1 \<and>
   global_fuse (scenario_global\<lparr>written_subfilenames := (\<lambda>r k. if r = 0 then ''subfiles'' else [])\<rparr>) \<and>
   job_launches (scenario_global\<lparr>written_subfilenames := (\<lambda>r k. if r = 0 then ''subfiles'' else [])\<rparr>)
     job_states (all_ranks scenario_global) = 1"
proof -
  let ?one = "scenario_global\<lparr>written_subfilenames := (\<lambda>r k. if r = 0 then ''subfiles'' else [])\<rparr>"
  have loc: "local_fuse scenario_local \<and> 1 \<in> set (hosts scenario_local)"
    by (simp add: local_fuse_def fusing_def scenario_local_def scenario_def fuse_env_def)
  have glob: "global_fuse ?one"
    by (simp add: global_fuse_def fusing_def scenario_global_def scenario_def fuse_env_def)
  have ranks: "all_ranks ?one = all_ranks scenario_global"
    by (simp add: all_ranks_def)
  have "job_launches scenario_local job_states (node_members (hosts scenario_local) 1) = 1"
    using fusion_launches [of scenario_local 1 job_states] loc by blast
  moreover have "job_launches ?one job_states (all_ranks scenario_global) = 1"
    using fusion_launches [of ?one 1 job_states] glob ranks
    by (simp add: all_ranks_def scenario_global_def scenario_def upt_rec)
  ultimately show ?thesis
    using loc glob by (intro conjI) simp_all
qed

text \<open>
  Claim C6 as stated fails in global-fuse mode: on two nodes whose lowest ranks each
  report a list of subfile names, one output step launches two fusion processes.
\<close>

theorem fusion_launches_counterexample:
  "global_fuse scenario_global \<and> hosts scenario_global = [0, 0, 1, 1] \<and>
   job_launches scenario_global job_states (all_ranks scenario_global) = 2"
proof -
  have glob: "global_fuse scenario_global"
    by (simp add: global_fuse_def fusing_def scenario_global_def scenario_def fuse_env_def)
  have "job_launches scenario_global job_states (all_ranks scenario_global) = 2"
    by (simp add: job_launches_def launches_global [OF glob] all_ranks_def)
       (simp add: scenario_global_def scenario_def upt_rec)
  moreover have "hosts scenario_global = [0, 0, 1, 1]"
    by (simp add: scenario_global_def scenario_def)
  ultimately show ?thesis
    using glob by (intro conjI)
qed

subsection \<open>A non-positive write frequency\<close>

lemma smod_minus_right: "(k::int) smod (- l) = k smod l"
  by (simp add: smod_int_alt_def)

lemma loop_body_neg: "loop_body w tf (- fr) s = loop_body w tf fr s"
  by (simp add: loop_body_def advance_def smod_minus_right Let_def)

lemma time_loop_neg: "time_loop n w tf (- fr) s = time_loop n w tf fr s"
  by (induction n arbitrary: s) (simp_all add: loop_body_neg split: sum.splits)

text \<open>
  Claim C7, as the code has it. \<^verbatim>\<open>solve\<close> does not validate \<^verbatim>\<open>write_freq\<close>. With a
  negative \<^verbatim>\<open>write_freq\<close> the remainders are taken in the loop body with the negative
  divisor, no error arises, and the run is the run for \<^verbatim>\<open>-write_freq\<close>.
\<close>

theorem solve_negative_write_freq:
  assumes "fr < 0"
  shows "solve n w tf fr s = solve n w tf (- fr) s \<and>
         (\<forall>r. solve n w tf fr s = Some r \<longrightarrow> loop_exited r)"
proof -
  have "solve n w tf fr s = solve n w tf (- fr) s"
    using time_loop_neg [of n w tf fr] by (simp add: solve_def)
  moreover have "loop_exited r" if "solve n w tf fr s = Some r" for r
  proof -
    from solve_decompose [OF that] obtain r1 where
      r1: "time_loop n w tf fr (outputParticles w s) = Some r1" "loop_exited r \<longleftrightarrow> \<not> isl r1"
      by blast
    from time_loop_exit [OF r1(1)] assms have "\<not> isl r1"
      by (cases r1) auto
    with r1(2) show ?thesis by simp
  qed
  ultimately show ?thesis by blast
qed
theorem solve_negative_write_freq_witness:
  "(- 2 :: int) < 0 \<and>
   solve 4 scenario 1 (- 2) (Solver (3 / 10) 0 ()) = Some (Inr scenario_end) \<and>
   loop_exited (Inr scenario_end :: fault \<times> unit solver + unit solver)"
proof -
  have neg: "(- 2 :: int) < 0"
    by simp
  have "solve 4 scenario 1 (- 2) (Solver (3 / 10) 0 ()) = Some (Inr scenario_end)"
    using solve_negative_write_freq [OF neg, of 4 scenario 1 "Solver (3 / 10) 0 ()"] scenario_run
    by simp
  with neg show ?thesis
    by simp
qed

text \<open>
  Claim C7 as stated fails: called with \<^verbatim>\<open>write_freq = -2\<close>, \<^verbatim>\<open>solve\<close> reports no
  error; it makes its four passes and writes output at the steps 0, 2 and 4.
\<close>

theorem solve_negative_write_freq_counterexample:
  "solve 4 scenario 1 (- 2) (Solver (3 / 10) 0 ()) = Some (Inr scenario_end) \<and>
   timesteps (events scenario_end) = [3 / 10, 3 / 10, 3 / 10, 3 / 10] \<and>
   outputs (events scenario_end) = [0, 2, 4]"
proof -
  have "solve 4 scenario 1 (- 2) (Solver (3 / 10) 0 ()) = Some (Inr scenario_end)"
    by (simp add: run_defs scenario_def scenario_end_def)
  moreover have "timesteps (events scenario_end) = [3 / 10, 3 / 10, 3 / 10, 3 / 10]"
    "outputs (events scenario_end) = [0, 2, 4]"
    by (simp_all add: scenario_end_def)
  ultimately show ?thesis
    by (intro conjI)
qed

text \<open>
  With \<^verbatim>\<open>write_freq = 0\<close> nothing is detected before the loop either: a participant
  other than rank 0 writes the initial output, integrates once and then divides by zero.
\<close>

lemma solve_zero_write_freq:
  "solve 4 scenario 1 0 (Solver (3 / 10) 1 ()) =
     Some (Inl (DivisionByZero,
       \<lparr>dt = 3 / 10, time = 3 / 10, step = 1, pm = (), rank = 1, shmrank = None,
        io_stats = None, nfork = 0,
        events = [OutputParticles 0, WriteTimeStep 0 0, TimeStep (3 / 10), Communicate]\<rparr>))"
  by (simp add: run_defs scenario_def)

end
